theory Spec2Isabelle
  imports Complex_Main "HOL-Library.Char_ord" "HOL-Library.List_Lexorder"
    "HOL-Library.Sublist" "HOL-Library.AList"
begin

section \<open>Strings, dictionaries and the Python library\<close>

text \<open>
  A Python \<^verbatim>\<open>str\<close> is modelled by the \<^typ>\<open>string\<close> of its UTF-8 bytes. UTF-8 is
  self-synchronising and order preserving, so the substring test \<^verbatim>\<open>a in b\<close>, equality and
  the lexicographic order used by \<^verbatim>\<open>sorted\<close> are the same on code points and on bytes.
  Only \<^verbatim>\<open>len\<close> differs: it counts code points, that is the bytes that are not
  continuation bytes (\<^verbatim>\<open>0x80 .. 0xBF\<close>).
\<close>

definition py_len :: "string \<Rightarrow> nat" where
  "py_len s = length (filter (\<lambda>c. \<not> (128 \<le> (of_char c :: nat) \<and> (of_char c :: nat) < 192)) s)"

text \<open>The operator \<^verbatim>\<open>t in s\<close> on strings: \<open>t\<close> occurs in \<open>s\<close> as a contiguous block.\<close>

fun str_in :: "string \<Rightarrow> string \<Rightarrow> bool" where
  "str_in t [] = (t = [])"
| "str_in t (c # cs) = (prefix t (c # cs) \<or> str_in t cs)"

text \<open>
  The functions of the Python standard library that the program calls are not part of the
  repository. They are taken as parameters, collected in one record: every theorem below holds
  for whatever these functions compute.
  \<^item> \<open>str_lower\<close> is \<^verbatim>\<open>str.lower\<close>, \<open>str_strip\<close> is \<^verbatim>\<open>str.strip\<close>;
  \<^item> \<open>re_findall p i s\<close> is \<^verbatim>\<open>re.findall(p, s)\<close>, with \<^verbatim>\<open>flags=re.IGNORECASE\<close> when \<open>i\<close> holds;
  \<^item> \<open>float_of q\<close> is the float nearest to the rational \<open>q\<close>: the value of a float literal, and
    of an \<^verbatim>\<open>int\<close> operand in mixed arithmetic; \<open>float_add\<close> and \<open>float_mul\<close> are \<^verbatim>\<open>+\<close> and
    \<^verbatim>\<open>*\<close> on floats, \<open>float_ge x n\<close> is the comparison \<^verbatim>\<open>x >= n\<close> of a float with an \<^verbatim>\<open>int\<close>
    literal, and \<open>float_round x n\<close> is \<^verbatim>\<open>round(x, n)\<close>.
\<close>

record 'f pylib =
  str_lower :: "string \<Rightarrow> string"
  str_strip :: "string \<Rightarrow> string"
  re_findall :: "string \<Rightarrow> bool \<Rightarrow> string \<Rightarrow> string list"
  float_of :: "rat \<Rightarrow> 'f"
  float_add :: "'f \<Rightarrow> 'f \<Rightarrow> 'f"
  float_mul :: "'f \<Rightarrow> 'f \<Rightarrow> 'f"
  float_ge :: "'f \<Rightarrow> int \<Rightarrow> bool"
  float_round :: "'f \<Rightarrow> int \<Rightarrow> 'f"

text \<open>
  A \<^verbatim>\<open>dict\<close> with string keys keeps its insertion order: an association list with distinct
  keys. \<open>dict_get\<close> is \<^verbatim>\<open>d.get(k, default)\<close>, \<open>dict_item\<close> is the subscript \<^verbatim>\<open>d[k]\<close>, which
  raises \<^verbatim>\<open>KeyError\<close> on a missing key, and \<open>dict_set\<close> is the assignment \<^verbatim>\<open>d[k] = v\<close>.
\<close>

datatype py_error = KeyError string

type_synonym 'v pydict = "(string \<times> 'v) list"

definition dict_get :: "'v pydict \<Rightarrow> string \<Rightarrow> 'v \<Rightarrow> 'v" where
  "dict_get d k dflt = (case map_of d k of None \<Rightarrow> dflt | Some v \<Rightarrow> v)"

definition dict_item :: "'v pydict \<Rightarrow> string \<Rightarrow> py_error + 'v" where
  "dict_item d k = (case map_of d k of None \<Rightarrow> Inl (KeyError k) | Some v \<Rightarrow> Inr v)"

definition dict_set :: "'v pydict \<Rightarrow> string \<Rightarrow> 'v \<Rightarrow> 'v pydict" where
  "dict_set d k v = AList.update k v d"

definition dict_keys :: "'v pydict \<Rightarrow> string list" where
  "dict_keys d = map fst d"

section \<open>Term dictionaries\<close>

record email =
  sender :: string
  subject :: string
  body :: string

text \<open>The three letters outside ASCII that the term lists use, as UTF-8.\<close>

definition i_acute :: string where "i_acute = [CHR 0xC3, CHR 0xAD]"
definition n_tilde :: string where "n_tilde = [CHR 0xC3, CHR 0xB1]"
definition o_acute :: string where "o_acute = [CHR 0xC3, CHR 0xB3]"

definition FREE_DOMAINS :: "string list" where
  "FREE_DOMAINS =
    [''gmail.com'', ''yahoo.com'', ''hotmail.com'', ''outlook.com'', ''live.com'',
     ''icloud.com'', ''proton.me'', ''protonmail.com'']"

definition ROLE_TERMS :: "string list" where
  "ROLE_TERMS =
    [''ceo'', ''cfo'', ''coo'', ''cto'', ''chairman'', ''board'', ''director'', ''vp'',
     ''vice president'', ''general counsel'', ''legal counsel'', ''head of'', ''founder'',
     ''owner'', ''president'',
     ''direcci'' @ o_acute @ ''n'', ''director'', ''consejo'', ''presidente'',
     ''propietario'', ''fundador'',
     ''asesor'' @ i_acute @ ''a jur'' @ i_acute @ ''dica'']"

definition URGENCY_TERMS :: "string list" where
  "URGENCY_TERMS =
    [''urgent'', ''asap'', ''immediately'', ''today'', ''right away'', ''time-sensitive'',
     ''confidential'',
     ''urgente'', ''inmediato'', ''hoy'', ''confidencial'', ''reservado'']"

definition SECURITY_TERMS :: "string list" where
  "SECURITY_TERMS =
    [''password'', ''reset'', ''2fa'', ''authentication'', ''login'', ''breach'', ''hack'',
     ''phishing'',
     ''contrase'' @ n_tilde @ ''a'', ''acceso'', ''intrusi'' @ o_acute @ ''n'', ''hackeo'',
     ''suplantaci'' @ o_acute @ ''n'', ''phishing'',
     ''wire transfer'', ''bank details'', ''change payment'', ''invoice change'',
     ''transferencia'', ''cambiar pago'', ''cambio de cuenta'', ''datos bancarios'']"

record rule =
  weight :: int
  terms :: "string list"

definition INTENT_RULES :: "rule pydict" where
  "INTENT_RULES =
    [(''M_AND_A'', \<lparr>weight = 5, terms =
        [''acquire'', ''acquisition'', ''buy your company'', ''purchase your company'',
         ''merger'', ''m&a'',
         ''investment proposal'', ''valuation'', ''term sheet'', ''due diligence'', ''equity'',
         ''stake'',
         ''adquirir'', ''compra de la empresa'',
         ''comprar la compa'' @ n_tilde @ i_acute @ ''a'', ''fusi'' @ o_acute @ ''n'',
         ''adquisici'' @ o_acute @ ''n'',
         ''oferta de compra'', ''valoraci'' @ o_acute @ ''n'',
         ''participaci'' @ o_acute @ ''n'', ''inversi'' @ o_acute @ ''n'']\<rparr>),
     (''LEGAL'', \<lparr>weight = 4, terms =
        [''contract'', ''agreement'', ''nda'', ''gdpr'', ''compliance'', ''lawsuit'',
         ''legal notice'',
         ''contrato'', ''acuerdo'', ''nda'', ''rgpd'', ''cumplimiento'', ''demanda'',
         ''notificaci'' @ o_acute @ ''n legal'']\<rparr>),
     (''SECURITY'', \<lparr>weight = 5, terms = SECURITY_TERMS\<rparr>),
     (''SALES'', \<lparr>weight = 2, terms =
        [''pricing'', ''quote'', ''proposal'', ''demo'', ''partnership'', ''reseller'',
         ''precio'', ''presupuesto'', ''propuesta'', ''demostraci'' @ o_acute @ ''n'',
         ''colaboraci'' @ o_acute @ ''n'']\<rparr>),
     (''SUPPORT'', \<lparr>weight = 1, terms =
        [''help'', ''issue'', ''bug'', ''problem'', ''doesn'' @ [CHR 0x27] @ ''t work'',
         ''error'',
         ''ayuda'', ''incidencia'', ''fallo'', ''no funciona'', ''problema'']\<rparr>)]"

section \<open>Pattern extractors\<close>

text \<open>
  \<^verbatim>\<open>contains_any\<close> and \<^verbatim>\<open>count_any\<close> lower-case the text, not the terms. The generator
  expression of \<^verbatim>\<open>count_any\<close> yields one \<open>1\<close> for every entry of the list that occurs.
\<close>

definition contains_any :: "'f pylib \<Rightarrow> string \<Rightarrow> string list \<Rightarrow> bool" where
  "contains_any L text ts = (let t = str_lower L text in list_ex (\<lambda>tm. str_in tm t) ts)"

definition count_any :: "'f pylib \<Rightarrow> string \<Rightarrow> string list \<Rightarrow> int" where
  "count_any L text ts =
     (let t = str_lower L text in sum_list (map (\<lambda>tm. 1) (filter (\<lambda>tm. str_in tm t) ts)))"

section \<open>Intent scorer\<close>

text \<open>
  The inner loop of \<^verbatim>\<open>score_intents\<close> appends to \<open>hits\<close>, in list order, every term whose
  lower-cased form occurs in the text.
\<close>

definition rule_hits :: "'f pylib \<Rightarrow> string \<Rightarrow> rule \<Rightarrow> string list" where
  "rule_hits L text r = filter (\<lambda>tm. str_in (str_lower L tm) text) (terms r)"

text \<open>
  The outer loop over \<^verbatim>\<open>INTENT_RULES.items()\<close>, threading the two dictionaries.
  \<^verbatim>\<open>scores[intent] += ...\<close> reads \<^verbatim>\<open>scores[intent]\<close> first, which raises on a missing key;
  \<^verbatim>\<open>len(set(hits))\<close> is the number of distinct hits and \<^verbatim>\<open>sorted(set(hits))\<close> lists them in
  ascending order.
\<close>

fun score_loop ::
  "'f pylib \<Rightarrow> string \<Rightarrow> rule pydict \<Rightarrow> int pydict \<times> string list pydict \<Rightarrow>
   py_error + (int pydict \<times> string list pydict)" where
  "score_loop L text [] (scores, evidence) = Inr (scores, evidence)"
| "score_loop L text ((intent, r) # rest) (scores, evidence) =
     (let hits = rule_hits L text r in
      if hits \<noteq> [] then
        (case dict_item scores intent of
           Inl e \<Rightarrow> Inl e
         | Inr old \<Rightarrow>
             score_loop L text rest
               (dict_set scores intent (old + weight r * int (length (remdups hits))),
                dict_set evidence intent (sort (remdups hits))))
      else score_loop L text rest (scores, evidence))"

definition score_text :: "'f pylib \<Rightarrow> string \<Rightarrow> string \<Rightarrow> string" where
  "score_text L subj bdy = str_lower L (subj @ [CHR 0x0A] @ bdy)"

definition score_intents ::
  "'f pylib \<Rightarrow> string \<Rightarrow> string \<Rightarrow> py_error + (int pydict \<times> string list pydict)" where
  "score_intents L subj bdy =
     (let text = score_text L subj bdy;
          scores = map (\<lambda>k. (k, 0)) (dict_keys INTENT_RULES);
          evidence = map (\<lambda>k. (k, [])) (dict_keys INTENT_RULES)
      in score_loop L text INTENT_RULES (scores, evidence))"

section \<open>Regular expressions\<close>

text \<open>
  \<^verbatim>\<open>extract_email_domain\<close> searches with the pattern
  \<^verbatim>\<open>@([A-Za-z0-9.-]+\.[A-Za-z]{2,})\<close>, a sequence of items that each match one character of a
  class, or greedily at least \<open>n\<close> of them. \<open>match_items\<close> is the backtracking matcher of such
  a sequence at the start of a string: a repetition first takes the longest run and gives
  characters back one by one until the rest of the pattern matches. It returns the length
  of the match. \<open>re_search\<close> tries the start positions from left to right, as
  \<^verbatim>\<open>re.search\<close> does, and returns the start and the length of the first match.
\<close>

datatype item = One "char \<Rightarrow> bool" | Rep "char \<Rightarrow> bool" nat

fun match_items :: "item list \<Rightarrow> string \<Rightarrow> nat option" where
  "match_items [] s = Some 0"
| "match_items (One p # its) s =
     (case s of
        [] \<Rightarrow> None
      | c # cs \<Rightarrow> if p c then map_option Suc (match_items its cs) else None)"
| "match_items (Rep p n # its) s =
     (case find (\<lambda>k. match_items its (drop k s) \<noteq> None)
             (rev [n..<Suc (length (takeWhile p s))]) of
        None \<Rightarrow> None
      | Some k \<Rightarrow> map_option (\<lambda>j. k + j) (match_items its (drop k s)))"

definition re_search :: "item list \<Rightarrow> string \<Rightarrow> (nat \<times> nat) option" where
  "re_search its s =
     (case find (\<lambda>i. match_items its (drop i s) \<noteq> None) [0..<Suc (length s)] of
        None \<Rightarrow> None
      | Some i \<Rightarrow> map_option (\<lambda>n. (i, n)) (match_items its (drop i s)))"

definition ascii_letter :: "char \<Rightarrow> bool" where
  "ascii_letter c = ((CHR ''A'' \<le> c \<and> c \<le> CHR ''Z'') \<or> (CHR ''a'' \<le> c \<and> c \<le> CHR ''z''))"

definition ascii_digit :: "char \<Rightarrow> bool" where
  "ascii_digit c = (CHR ''0'' \<le> c \<and> c \<le> CHR ''9'')"

definition host_char :: "char \<Rightarrow> bool" where
  "host_char c = (ascii_letter c \<or> ascii_digit c \<or> c = CHR ''.'' \<or> c = CHR ''-'')"

definition email_pattern :: "item list" where
  "email_pattern =
     [One (\<lambda>c. c = CHR ''@''), Rep host_char 1, One (\<lambda>c. c = CHR ''.''), Rep ascii_letter 2]"

text \<open>
  Group 1 of the pattern is the whole match without its first character, the \<^verbatim>\<open>@\<close>.
  \<open>None\<close> is Python's \<^verbatim>\<open>None\<close>; \<^verbatim>\<open>m.group(1)\<close> is only evaluated when there is a match.
\<close>

definition extract_email_domain :: "'f pylib \<Rightarrow> string \<Rightarrow> string option" where
  "extract_email_domain L sndr =
     (case re_search email_pattern sndr of
        None \<Rightarrow> None
      | Some (i, n) \<Rightarrow> Some (str_lower L (take (n - 1) (drop (Suc i) sndr))))"

text \<open>
  The strings that the email pattern matches, stated without reference to the matcher:
  \<open>has_address s\<close> holds when \<open>s\<close> contains an \<^verbatim>\<open>@\<close>, followed by a non-empty block of host
  characters, a dot, and at least two letters.
\<close>

definition has_address :: "string \<Rightarrow> bool" where
  "has_address s =
     (\<exists>pre host tld post.
        s = pre @ ''@'' @ host @ ''.'' @ tld @ post \<and>
        host \<noteq> [] \<and> list_all host_char host \<and> 2 \<le> length tld \<and> list_all ascii_letter tld)"

text \<open>
  The strings that a sequence of items matches as a whole, again without the matcher: each
  \<open>One p\<close> takes one character of the class, each \<open>Rep p n\<close> takes some \<open>k \<ge> n\<close> of them.
\<close>

fun accepts :: "item list \<Rightarrow> string \<Rightarrow> bool" where
  "accepts [] w = (w = [])"
| "accepts (One p # its) w = (case w of [] \<Rightarrow> False | c # cs \<Rightarrow> p c \<and> accepts its cs)"
| "accepts (Rep p n # its) w =
     (\<exists>k. n \<le> k \<and> k \<le> length w \<and> list_all p (take k w) \<and> accepts its (drop k w))"

text \<open>
  The other patterns go to \<^verbatim>\<open>re.findall\<close> as they are written in the source. A backslash
  cannot stand in a string literal, so it is written \<open>bslash\<close>.
\<close>

definition bslash :: string where "bslash = [CHR 0x5C]"
definition euro :: string where "euro = [CHR 0xE2, CHR 0x82, CHR 0xAC]"

definition money_patterns :: "string list" where
  "money_patterns =
     [euro @ bslash @ ''s?'' @ bslash @ ''d['' @ bslash @ ''d.,]*'' @ bslash @ ''b'',
      bslash @ ''$'' @ bslash @ ''s?'' @ bslash @ ''d['' @ bslash @ ''d.,]*'' @ bslash @ ''b'',
      bslash @ ''b'' @ bslash @ ''d['' @ bslash @ ''d.,]*'' @ bslash
        @ ''s?(m|million|millones|b|billion|mil)'' @ bslash @ ''b'',
      bslash @ ''b'' @ bslash @ ''d{2,}'' @ bslash @ ''s?'' @ euro @ bslash @ ''b'',
      bslash @ ''b'' @ bslash @ ''d{2,}'' @ bslash @ ''s?'' @ bslash @ ''$'' @ bslash @ ''b'']"

definition url_pattern :: string where
  "url_pattern = ''https?://'' @ bslash @ ''S+|www'' @ bslash @ ''.'' @ bslash @ ''S+''"

definition phone_pattern :: string where
  "phone_pattern =
     bslash @ ''+?'' @ bslash @ ''d['' @ bslash @ ''d'' @ bslash @ ''s().-]{7,}'' @ bslash @ ''d''"

text \<open>
  \<^verbatim>\<open>list(set(xs))\<close> keeps one copy of every element, in an order Python does not specify;
  the model keeps the order of \<open>remdups\<close>. Nothing below depends on the order.
\<close>

definition find_money :: "'f pylib \<Rightarrow> string \<Rightarrow> string list" where
  "find_money L text =
     (let found = concat (map (\<lambda>p. re_findall L p True text) money_patterns)
      in remdups (filter (\<lambda>x. str_strip L x \<noteq> []) found))"

definition find_urls :: "'f pylib \<Rightarrow> string \<Rightarrow> string list" where
  "find_urls L text = remdups (re_findall L url_pattern True text)"

definition find_phones :: "'f pylib \<Rightarrow> string \<Rightarrow> string list" where
  "find_phones L text = remdups (re_findall L phone_pattern False text)"

section \<open>Feature extractor\<close>

text \<open>
  The dictionary that \<^verbatim>\<open>extract_features\<close> returns has ten fixed keys and is only read with
  these keys: a record. The key \<^verbatim>\<open>length\<close> is the field \<open>text_length\<close>.
\<close>

record feature_dict =
  sender_domain :: string
  sender_is_free_domain :: bool
  mentions_roles :: bool
  role_hits :: int
  mentions_urgency :: bool
  urgency_hits :: int
  money_mentions :: "string list"
  urls :: "string list"
  phones :: "string list"
  text_length :: nat

definition extract_features :: "'f pylib \<Rightarrow> email \<Rightarrow> feature_dict" where
  "extract_features L e =
     (let domain = (case extract_email_domain L (sender e) of
                      None \<Rightarrow> []
                    | Some d \<Rightarrow> if d \<noteq> [] then d else []);
          sender_is_free = (if domain \<noteq> [] then domain \<in> set FREE_DOMAINS else True);
          text = subject e @ [CHR 0x0A] @ body e
      in \<lparr>sender_domain = domain,
          sender_is_free_domain = sender_is_free,
          mentions_roles = contains_any L text ROLE_TERMS,
          role_hits = count_any L text ROLE_TERMS,
          mentions_urgency = contains_any L text URGENCY_TERMS,
          urgency_hits = count_any L text URGENCY_TERMS,
          money_mentions = find_money L text,
          urls = find_urls L text,
          phones = find_phones L text,
          text_length = py_len text\<rparr>)"

section \<open>Decision engine\<close>

record 'f decision =
  action :: string
  risk :: 'f
  intent_scores :: "int pydict"
  intent_evidence :: "string list pydict"
  features :: feature_dict

definition strong_security_terms :: "string list" where
  "strong_security_terms =
     [''breach'', ''hack'', ''phishing'', ''wire transfer'', ''bank details'',
      ''datos bancarios'', ''transferencia'']"

text \<open>
  The suppression step: \<^verbatim>\<open>scores["SECURITY"] = 0\<close> under the three conditions, the scores
  unchanged otherwise.
\<close>

definition has_strong_security :: "'f pylib \<Rightarrow> email \<Rightarrow> bool" where
  "has_strong_security L e =
     (let text_all = str_lower L (subject e @ [CHR 0x0A] @ body e)
      in list_ex (\<lambda>t. str_in t text_all) strong_security_terms)"

definition suppressed :: "'f pylib \<Rightarrow> email \<Rightarrow> int pydict \<Rightarrow> bool" where
  "suppressed L e scores =
     (let support_like = (dict_get scores ''SUPPORT'' 0 \<ge> 1);
          security_like = (dict_get scores ''SECURITY'' 0 > 0)
      in support_like \<and> security_like \<and> \<not> has_strong_security L e)"

definition suppress :: "'f pylib \<Rightarrow> email \<Rightarrow> int pydict \<Rightarrow> int pydict" where
  "suppress L e scores =
     (if suppressed L e scores then dict_set scores ''SECURITY'' 0 else scores)"

text \<open>
  The three risk components, each a float accumulated from \<^verbatim>\<open>0.0\<close> in the order of the
  source. An \<^verbatim>\<open>int\<close> operand is converted to a float before the operation.
\<close>

definition strategic_risk :: "'f pylib \<Rightarrow> int pydict \<Rightarrow> feature_dict \<Rightarrow> 'f" where
  "strategic_risk L scores f =
     (let r0 = float_of L 0;
          r1 = float_add L r0
                 (float_mul L (float_of L (of_int (dict_get scores ''M_AND_A'' 0)))
                    (float_of L (12 / 10)));
          r2 = float_add L r1 (float_of L (if mentions_roles f then 4 else 0));
          r3 = float_add L r2 (float_of L (if mentions_urgency f then 2 else 0));
          r4 = float_add L r3 (float_of L (if money_mentions f \<noteq> [] then 3 else 0))
      in r4)"

definition operational_risk :: "'f pylib \<Rightarrow> int pydict \<Rightarrow> 'f" where
  "operational_risk L scores =
     (let r0 = float_of L 0;
          r1 = float_add L r0
                 (float_mul L (float_of L (of_int (dict_get scores ''SECURITY'' 0)))
                    (float_of L (13 / 10)));
          r2 = float_add L r1
                 (float_mul L (float_of L (of_int (dict_get scores ''LEGAL'' 0)))
                    (float_of L (11 / 10)))
      in r2)"

definition trust_penalty :: "'f pylib \<Rightarrow> int pydict \<Rightarrow> feature_dict \<Rightarrow> 'f" where
  "trust_penalty L scores f =
     (let t0 = float_of L 0;
          t1 = (if sender_is_free_domain f then float_add L t0 (float_of L 2) else t0);
          t2 = (if length (urls f) \<ge> 2 then float_add L t1 (float_of L 2) else t1);
          t3 = (if length (phones f) \<ge> 1 \<and> dict_get scores ''SECURITY'' 0 > 0
                then float_add L t2 (float_of L 2) else t2)
      in t3)"

definition total_risk :: "'f pylib \<Rightarrow> int pydict \<Rightarrow> feature_dict \<Rightarrow> 'f" where
  "total_risk L scores f =
     float_add L (float_add L (strategic_risk L scores f) (operational_risk L scores))
       (trust_penalty L scores f)"

definition select_action :: "'f pylib \<Rightarrow> int pydict \<Rightarrow> feature_dict \<Rightarrow> string" where
  "select_action L scores f =
     (if dict_get scores ''SECURITY'' 0 \<ge> 10 \<and> float_ge L (trust_penalty L scores f) 3
        then ''BLOCK''
      else if dict_get scores ''M_AND_A'' 0 \<ge> 5 \<or> dict_get scores ''LEGAL'' 0 \<ge> 8
        then ''ESCALATE_HUMAN''
      else if mentions_roles f \<and> mentions_urgency f \<and> money_mentions f \<noteq> []
        then ''ESCALATE_HUMAN''
      else if float_ge L (total_risk L scores f) 10
        then ''ESCALATE_HUMAN''
      else ''AUTO_REPLY'')"

definition decide_action :: "'f pylib \<Rightarrow> email \<Rightarrow> py_error + 'f decision" where
  "decide_action L e =
     (case score_intents L (subject e) (body e) of
        Inl err \<Rightarrow> Inl err
      | Inr (scores0, evidence) \<Rightarrow>
          (let f = extract_features L e;
               scores = suppress L e scores0
           in Inr \<lparr>action = select_action L scores f,
                   risk = float_round L (total_risk L scores f) 2,
                   intent_scores = scores,
                   intent_evidence = evidence,
                   features = f\<rparr>))"

section \<open>A library instance for evaluation\<close>

text \<open>
  An instance of the library record on which the definitions can be run. Its \<open>str_lower\<close>
  is \<^verbatim>\<open>str.lower\<close> on ASCII text; its \<open>re_findall\<close> finds nothing, which is what the money,
  URL and phone patterns find in a text with no digit and no \<^verbatim>\<open>http\<close> or \<^verbatim>\<open>www.\<close>
  in either case; its floats are the rationals with exact arithmetic.
\<close>

definition ascii_lower :: "string \<Rightarrow> string" where
  "ascii_lower s =
     map (\<lambda>c. if CHR ''A'' \<le> c \<and> c \<le> CHR ''Z'' then char_of (of_char c + (32::nat)) else c) s"

definition ascii_strip :: "string \<Rightarrow> string" where
  "ascii_strip s =
     (let sp = (\<lambda>c. c \<in> set [CHR 0x20, CHR 0x09, CHR 0x0A, CHR 0x0B, CHR 0x0C, CHR 0x0D])
      in rev (dropWhile sp (rev (dropWhile sp s))))"

definition plain_lib :: "rat pylib" where
  "plain_lib =
     \<lparr>str_lower = ascii_lower,
      str_strip = ascii_strip,
      re_findall = (\<lambda>p i s. []),
      float_of = (\<lambda>q. q),
      float_add = (\<lambda>x y. x + y),
      float_mul = (\<lambda>x y. x * y),
      float_ge = (\<lambda>x n. of_int n \<le> x),
      float_round = (\<lambda>x n. of_int (round (x * 10 ^ nat n)) / 10 ^ nat n)\<rparr>"

section \<open>Dictionaries and the substring test\<close>

lemma str_in_sublist: "str_in t s = sublist t s"
  by (induction s) (simp_all add: sublist_Cons_right)

lemma map_of_dict_set: "map_of (dict_set d k v) = (map_of d)(k \<mapsto> v)"
  by (simp add: dict_set_def update_conv')

lemma dict_get_dict_set: "dict_get (dict_set d k v) k' x = (if k' = k then v else dict_get d k' x)"
  by (simp add: dict_get_def map_of_dict_set)

lemma dict_keys_dict_set:
  "k \<in> set (dict_keys d) \<Longrightarrow> dict_keys (dict_set d k v) = dict_keys d"
  by (simp add: dict_keys_def dict_set_def update_keys)

lemma update_fresh_prefix:
  "k \<notin> fst ` set ps \<Longrightarrow> AList.update k v (ps @ (k, x) # rest) = ps @ (k, v) # rest"
  by (induction ps) auto

lemma map_of_fresh_prefix:
  "k \<notin> fst ` set ps \<Longrightarrow> map_of (ps @ (k, x) # rest) k = Some x"
  by (induction ps) auto

lemma score_loop_closed:
  "distinct (map fst rules) \<Longrightarrow>
   fst ` set ps \<inter> fst ` set rules = {} \<Longrightarrow>
   fst ` set pe \<inter> fst ` set rules = {} \<Longrightarrow>
   score_loop L text rules
     (ps @ map (\<lambda>(k, r). (k, 0)) rules, pe @ map (\<lambda>(k, r). (k, [])) rules) =
   Inr (ps @ map (\<lambda>(k, r). (k, weight r * int (length (remdups (rule_hits L text r))))) rules,
        pe @ map (\<lambda>(k, r). (k, sort (remdups (rule_hits L text r)))) rules)"
proof (induction rules arbitrary: ps pe)
  case Nil
  show ?case by simp
next
  case (Cons kr rules)
  obtain k r where kr: "kr = (k, r)" by (cases kr)
  from Cons.prems have fresh_s: "k \<notin> fst ` set ps" and fresh_e: "k \<notin> fst ` set pe"
    and dist: "distinct (map fst rules)" and knew: "k \<notin> fst ` set rules"
    by (auto simp: kr)
  let ?v = "weight r * int (length (remdups (rule_hits L text r)))"
  let ?ev = "sort (remdups (rule_hits L text r))"
  have disj_s: "fst ` set (ps @ [(k, ?v)]) \<inter> fst ` set rules = {}"
    using Cons.prems(2) knew by (auto simp: kr)
  have disj_e: "fst ` set (pe @ [(k, ?ev)]) \<inter> fst ` set rules = {}"
    using Cons.prems(3) knew by (auto simp: kr)
  have IH: "\<And>v ev. fst ` set (ps @ [(k, v)]) \<inter> fst ` set rules = {} \<Longrightarrow>
     fst ` set (pe @ [(k, ev)]) \<inter> fst ` set rules = {} \<Longrightarrow>
     score_loop L text rules
       (ps @ (k, v) # map (\<lambda>(k, r). (k, 0)) rules, pe @ (k, ev) # map (\<lambda>(k, r). (k, [])) rules) =
     Inr (ps @ (k, v) # map (\<lambda>(k, r). (k, weight r * int (length (remdups (rule_hits L text r))))) rules,
          pe @ (k, ev) # map (\<lambda>(k, r). (k, sort (remdups (rule_hits L text r)))) rules)"
    using Cons.IH [OF dist, of "ps @ [(k, v)]" "pe @ [(k, ev)]" for v ev] by simp
  show ?case
  proof (cases "rule_hits L text r = []")
    case True
    have d0: "fst ` set (ps @ [(k, 0::int)]) \<inter> fst ` set rules = {}"
      using disj_s by auto
    have e0: "fst ` set (pe @ [(k, []::string list)]) \<inter> fst ` set rules = {}"
      using disj_e by auto
    show ?thesis using True IH [OF d0 e0] by (simp add: kr Let_def)
  next
    case False
    have item: "dict_item (ps @ (k, 0) # map (\<lambda>(k, r). (k, 0)) rules) k = Inr 0"
      unfolding dict_item_def map_of_fresh_prefix [OF fresh_s] by simp
    show ?thesis
      using False IH [OF disj_s disj_e]
      by (simp add: kr item Let_def dict_set_def update_fresh_prefix [OF fresh_s]
          update_fresh_prefix [OF fresh_e])
  qed
qed

lemma INTENT_RULES_keys:
  "map fst INTENT_RULES = [''M_AND_A'', ''LEGAL'', ''SECURITY'', ''SALES'', ''SUPPORT'']"
  by (simp add: INTENT_RULES_def)

lemma score_intents_closed:
  "score_intents L subj bdy =
   Inr (map (\<lambda>(k, r). (k, weight r * int (length (remdups (rule_hits L (score_text L subj bdy) r))))) INTENT_RULES,
        map (\<lambda>(k, r). (k, sort (remdups (rule_hits L (score_text L subj bdy) r)))) INTENT_RULES)"
proof -
  have d: "distinct (map fst INTENT_RULES)" by (simp add: INTENT_RULES_keys)
  have s: "map (\<lambda>k. (k, 0::int)) (dict_keys INTENT_RULES) = map (\<lambda>(k, r). (k, 0)) INTENT_RULES"
    by (simp add: dict_keys_def case_prod_beta)
  have e: "map (\<lambda>k. (k, []::string list)) (dict_keys INTENT_RULES) = map (\<lambda>(k, r). (k, [])) INTENT_RULES"
    by (simp add: dict_keys_def case_prod_beta)
  show ?thesis
    using score_loop_closed [OF d, of "[]" "[]" L "score_text L subj bdy"]
    by (simp add: score_intents_def s e)
qed


lemma rule_hits_set:
  "set (rule_hits L text r) = {t \<in> set (terms r). str_in (str_lower L t) text}"
  by (auto simp: rule_hits_def)

lemma dict_item_map_rules:
  "distinct (map fst rules) \<Longrightarrow> (k, r) \<in> set rules \<Longrightarrow>
   dict_item (map (\<lambda>(k, r). (k, g r)) rules) k = Inr (g r)"
proof -
  assume d: "distinct (map fst rules)" and m: "(k, r) \<in> set rules"
  have "map_of (map (\<lambda>(k, r). (k, g r)) rules) k = map_option g (map_of rules k)"
    by (induction rules) auto
  moreover have "map_of rules k = Some r" using d m by simp
  ultimately show ?thesis by (simp add: dict_item_def)
qed

lemma dict_keys_map_rules: "dict_keys (map (\<lambda>(k, r). (k, g r)) rules) = map fst rules"
  by (simp add: dict_keys_def case_prod_beta)


section \<open>The intent scorer\<close>

text \<open>
  Claim C5. For every subject and body, \<^verbatim>\<open>score_intents\<close> returns without raising, the two
  dictionaries it returns have the five categories as keys in the order of declaration, and
  for every category the evidence is the sorted, duplicate-free list of the terms of the
  category whose lower-cased form occurs in the lower-cased text \<^verbatim>\<open>subject + "\n" + body\<close>,
  the score is the weight times the number of these distinct terms, and a category with no
  such term has score 0 and empty evidence.
\<close>

theorem score_intents_spec:
  "\<exists>scores evidence.
     score_intents L subj bdy = Inr (scores, evidence) \<and>
     dict_keys scores = [''M_AND_A'', ''LEGAL'', ''SECURITY'', ''SALES'', ''SUPPORT''] \<and>
     dict_keys evidence = [''M_AND_A'', ''LEGAL'', ''SECURITY'', ''SALES'', ''SUPPORT''] \<and>
     (\<forall>(k, r) \<in> set INTENT_RULES.
        \<exists>ev. dict_item evidence k = Inr ev \<and>
          sorted ev \<and> distinct ev \<and>
          set ev = {t \<in> set (terms r). str_in (str_lower L t) (str_lower L (subj @ [CHR 0x0A] @ bdy))} \<and>
          dict_item scores k = Inr (weight r * int (card (set ev))) \<and>
          (set ev = {} \<longrightarrow> dict_item scores k = Inr 0 \<and> ev = []))"
proof -
  let ?text = "score_text L subj bdy"
  let ?sc = "map (\<lambda>(k, r). (k, weight r * int (length (remdups (rule_hits L ?text r))))) INTENT_RULES"
  let ?ev = "map (\<lambda>(k, r). (k, sort (remdups (rule_hits L ?text r)))) INTENT_RULES"
  have d: "distinct (map fst INTENT_RULES)" by (simp add: INTENT_RULES_keys)
  have each: "\<exists>ev. dict_item ?ev k = Inr ev \<and>
          sorted ev \<and> distinct ev \<and>
          set ev = {t \<in> set (terms r). str_in (str_lower L t) (str_lower L (subj @ [CHR 0x0A] @ bdy))} \<and>
          dict_item ?sc k = Inr (weight r * int (card (set ev))) \<and>
          (set ev = {} \<longrightarrow> dict_item ?sc k = Inr 0 \<and> ev = [])"
    if m: "(k, r) \<in> set INTENT_RULES" for k r
  proof -
    let ?h = "sort (remdups (rule_hits L ?text r))"
    have 1: "dict_item ?ev k = Inr ?h"
      by (rule dict_item_map_rules [OF d m])
    have 2: "dict_item ?sc k = Inr (weight r * int (length (remdups (rule_hits L ?text r))))"
      by (rule dict_item_map_rules [OF d m])
    have 3: "set ?h = {t \<in> set (terms r). str_in (str_lower L t) (str_lower L (subj @ [CHR 0x0A] @ bdy))}"
      by (simp add: rule_hits_set score_text_def)
    have 4: "card (set ?h) = length (remdups (rule_hits L ?text r))"
      by (simp add: length_remdups_card_conv)
    have 5: "set ?h = {} \<longrightarrow> dict_item ?sc k = Inr 0 \<and> ?h = []"
    proof
      assume "set ?h = {}"
      then have "rule_hits L ?text r = []" by simp
      then show "dict_item ?sc k = Inr 0 \<and> ?h = []" using 2 by simp
    qed
    have 6: "sorted ?h \<and> distinct ?h" by simp
    show ?thesis
      using 1 2 3 4 5 6 by (intro exI [of _ ?h]) (simp only: simp_thms)
  qed
  show ?thesis
    apply (intro exI [of _ ?sc] exI [of _ ?ev])
    using each by (auto simp: score_intents_closed dict_keys_map_rules INTENT_RULES_keys)
qed

theorem score_intents_spec_witness:
  "score_intents plain_lib ''Reset'' ''help'' =
     Inr ([(''M_AND_A'', 0), (''LEGAL'', 0), (''SECURITY'', 5), (''SALES'', 0), (''SUPPORT'', 1)],
          [(''M_AND_A'', []), (''LEGAL'', []), (''SECURITY'', [''reset'']), (''SALES'', []),
           (''SUPPORT'', [''help''])]) \<and>
   (''SECURITY'', \<lparr>weight = 5, terms = SECURITY_TERMS\<rparr>) \<in> set INTENT_RULES \<and>
   {t \<in> set SECURITY_TERMS. str_in (str_lower plain_lib t) (str_lower plain_lib (''Reset'' @ [CHR 0x0A] @ ''help''))}
     = {''reset''}"
proof -
  have ev: "score_intents plain_lib ''Reset'' ''help'' =
     Inr ([(''M_AND_A'', 0), (''LEGAL'', 0), (''SECURITY'', 5), (''SALES'', 0), (''SUPPORT'', 1)],
          [(''M_AND_A'', []), (''LEGAL'', []), (''SECURITY'', [''reset'']), (''SALES'', []),
           (''SUPPORT'', [''help''])])"
    by code_simp
  have m: "(''SECURITY'', \<lparr>weight = 5, terms = SECURITY_TERMS\<rparr>) \<in> set INTENT_RULES"
    by (simp add: INTENT_RULES_def)
  from score_intents_spec [of plain_lib "''Reset''" "''help''"] ev m
  have "\<exists>ev. dict_item [(''M_AND_A'', []), (''LEGAL'', []), (''SECURITY'', [''reset'']),
                (''SALES'', []), (''SUPPORT'', [''help''])] ''SECURITY'' = Inr ev \<and>
          set ev = {t \<in> set (terms \<lparr>weight = 5, terms = SECURITY_TERMS\<rparr>).
                     str_in (str_lower plain_lib t)
                       (str_lower plain_lib (''Reset'' @ [CHR 0x0A] @ ''help''))}"
    by fastforce
  then have "{t \<in> set SECURITY_TERMS. str_in (str_lower plain_lib t)
                (str_lower plain_lib (''Reset'' @ [CHR 0x0A] @ ''help''))} = {''reset''}"
    by (simp add: dict_item_def)
  with ev m show ?thesis by simp
qed

section \<open>The sender's domain\<close>

text \<open>
  The backtracking matcher finds a match exactly when some prefix of the string is accepted
  by the pattern, so the search fails exactly when no substring is accepted.
\<close>

lemma find_Some_mem: "find P xs = Some x \<Longrightarrow> x \<in> set xs \<and> P x"
  by (auto simp: find_Some_iff)

lemma list_all_take_takeWhile:
  "k \<le> length (takeWhile p s) \<Longrightarrow> list_all p (take k s)"
proof (induction s arbitrary: k)
  case Nil
  then show ?case by simp
next
  case (Cons c cs)
  then show ?case by (cases k) (auto split: if_splits)
qed

lemma takeWhile_length_ge:
  "k \<le> length s \<Longrightarrow> list_all p (take k s) \<Longrightarrow> k \<le> length (takeWhile p s)"
proof (induction s arbitrary: k)
  case Nil
  then show ?case by simp
next
  case (Cons c cs)
  then show ?case by (cases k) auto
qed

lemma match_items_sound:
  "match_items its s = Some m \<Longrightarrow> m \<le> length s \<and> accepts its (take m s)"
proof (induction its s arbitrary: m rule: match_items.induct)
  case (1 s)
  then show ?case by simp
next
  case (2 p its s)
  then show ?case by (cases s) (auto split: if_splits)
next
  case (3 p n its s)
  from "3.prems" obtain k j where
    f: "find (\<lambda>k. match_items its (drop k s) \<noteq> None) (rev [n..<Suc (length (takeWhile p s))]) = Some k"
    and j: "match_items its (drop k s) = Some j" and m: "m = k + j"
    by (auto split: option.splits)
  from find_Some_mem [OF f] have kr: "n \<le> k" "k \<le> length (takeWhile p s)" by auto
  have kin: "k \<in> set (rev [n..<Suc (length (takeWhile p s))])" using kr by auto
  from "3.IH"(2) [OF f j] have jl: "j \<le> length (drop k s)" and acc: "accepts its (take j (drop k s))"
    by auto
  have kl: "k \<le> length s" using kr(2) length_takeWhile_le [of p s] by linarith
  have t1: "take k (take (k + j) s) = take k s" by (simp add: min_def)
  have t2: "drop k (take (k + j) s) = take j (drop k s)" by (simp add: drop_take)
  have len: "k \<le> length (take (k + j) s)" using kl jl by simp
  have "n \<le> k \<and> k \<le> length (take (k + j) s) \<and> list_all p (take k (take (k + j) s)) \<and>
        accepts its (drop k (take (k + j) s))"
    unfolding t1 t2 using kr(1) len acc list_all_take_takeWhile [OF kr(2)] by simp
  then have "accepts (Rep p n # its) (take (k + j) s)"
    unfolding accepts.simps(3) by (rule exI [of _ k])
  then show ?case using m jl kl by auto
qed

lemma match_items_complete:
  "accepts its w \<Longrightarrow> match_items its (w @ rest) \<noteq> None"
proof (induction its w arbitrary: rest rule: accepts.induct)
  case (1 w)
  then show ?case by simp
next
  case (2 p its w)
  then show ?case by (cases w) auto
next
  case (3 p n its w)
  from "3.prems" obtain k where k: "n \<le> k" "k \<le> length w" "list_all p (take k w)"
    and acc: "accepts its (drop k w)" by auto
  let ?s = "w @ rest"
  let ?P = "\<lambda>k. match_items its (drop k ?s) \<noteq> None"
  have "list_all p (take k ?s)" using k by simp
  then have "k \<le> length (takeWhile p ?s)"
    using k(2) by (intro takeWhile_length_ge) auto
  then have kin: "k \<in> set (rev [n..<Suc (length (takeWhile p ?s))])" using k(1) by auto
  have "drop k ?s = drop k w @ rest" using k(2) by simp
  then have Pk: "?P k" using "3.IH" [OF acc, of rest] by simp
  from kin Pk have "find ?P (rev [n..<Suc (length (takeWhile p ?s))]) \<noteq> None"
    unfolding find_None_iff by blast
  then obtain k' where f: "find ?P (rev [n..<Suc (length (takeWhile p ?s))]) = Some k'" by auto
  from find_Some_mem [OF f] have "?P k'" by simp
  then show ?case using f by auto
qed

lemma re_search_None_iff:
  "re_search its s = None \<longleftrightarrow> \<not> (\<exists>pre w post. s = pre @ w @ post \<and> accepts its w)"
proof
  assume n: "re_search its s = None"
  show "\<not> (\<exists>pre w post. s = pre @ w @ post \<and> accepts its w)"
  proof
    assume "\<exists>pre w post. s = pre @ w @ post \<and> accepts its w"
    then obtain pre w post where s: "s = pre @ w @ post" and a: "accepts its w" by blast
    let ?P = "\<lambda>i. match_items its (drop i s) \<noteq> None"
    have "drop (length pre) s = w @ post" by (simp add: s)
    then have "?P (length pre)" using match_items_complete [OF a, of post] by simp
    moreover have "length pre \<in> set [0..<Suc (length s)]" by (simp add: s)
    ultimately have "find ?P [0..<Suc (length s)] \<noteq> None"
      unfolding find_None_iff by blast
    then obtain i where f: "find ?P [0..<Suc (length s)] = Some i" by auto
    from find_Some_mem [OF f] have "?P i" by simp
    then show False using n f by (auto simp: re_search_def)
  qed
next
  assume na: "\<not> (\<exists>pre w post. s = pre @ w @ post \<and> accepts its w)"
  show "re_search its s = None"
  proof (rule ccontr)
    assume "re_search its s \<noteq> None"
    then obtain i m where f: "match_items its (drop i s) = Some m"
      by (auto simp: re_search_def split: option.splits)
    from match_items_sound [OF f] have a: "accepts its (take m (drop i s))" by simp
    have "s = take i s @ take m (drop i s) @ drop m (drop i s)"
      by (simp only: append_take_drop_id)
    with a na show False by blast
  qed
qed

lemma accepts_One:
  "accepts (One p # its) w \<longleftrightarrow> (\<exists>c cs. w = c # cs \<and> p c \<and> accepts its cs)"
  by (cases w) simp_all

lemma accepts_email:
  "accepts email_pattern w \<longleftrightarrow>
   (\<exists>host tld. w = ''@'' @ host @ ''.'' @ tld \<and> host \<noteq> [] \<and> list_all host_char host \<and>
      2 \<le> length tld \<and> list_all ascii_letter tld)"
  (is "?l \<longleftrightarrow> ?r")
proof
  assume ?l
  then obtain c cs where w: "w = c # cs" and c: "c = CHR ''@''"
    and r1: "accepts [Rep host_char 1, One (\<lambda>c. c = CHR ''.''), Rep ascii_letter 2] cs"
    unfolding email_pattern_def accepts_One by blast
  from r1 obtain k where k: "1 \<le> k" "k \<le> length cs" "list_all host_char (take k cs)"
    and r2: "accepts [One (\<lambda>c. c = CHR ''.''), Rep ascii_letter 2] (drop k cs)"
    unfolding accepts.simps(3) by blast
  from r2 obtain d ds where d: "drop k cs = d # ds" "d = CHR ''.''"
    and r3: "accepts [Rep ascii_letter 2] ds"
    unfolding accepts_One by blast
  from r3 obtain j where j: "2 \<le> j" "j \<le> length ds" "list_all ascii_letter (take j ds)"
    "drop j ds = []"
    unfolding accepts.simps(3) accepts.simps(1) by blast
  from j have tl: "take j ds = ds" by simp
  have "cs = take k cs @ drop k cs" by simp
  then have "cs = take k cs @ ''.'' @ ds" using d by simp
  then have e: "w = ''@'' @ take k cs @ ''.'' @ ds" using w c by simp
  have ne: "take k cs \<noteq> []" using k(1) k(2) by (cases cs; cases k) simp_all
  have "2 \<le> length ds" using j by linarith
  moreover have "list_all ascii_letter ds" using j(3) tl by simp
  ultimately show ?r using e ne k(3) by blast
next
  assume ?r
  then obtain host tld where w: "w = ''@'' @ host @ ''.'' @ tld" and h: "host \<noteq> []"
    "list_all host_char host" and t: "2 \<le> length tld" "list_all ascii_letter tld" by blast
  have 1: "accepts [Rep ascii_letter 2] tld"
    unfolding accepts.simps(3) accepts.simps(1)
    using t by (intro exI [of _ "length tld"]) simp
  have 2: "accepts [One (\<lambda>c. c = CHR ''.''), Rep ascii_letter 2] (''.'' @ tld)"
    using 1 by simp
  have hl: "1 \<le> length host" using h by (cases host) simp_all
  have 3: "accepts [Rep host_char 1, One (\<lambda>c. c = CHR ''.''), Rep ascii_letter 2] (host @ ''.'' @ tld)"
    unfolding accepts.simps(3)
    using h(2) hl 2 by (intro exI [of _ "length host"]) simp
  show ?l using 3 by (simp add: w email_pattern_def)
qed

lemma has_address_iff:
  "has_address s \<longleftrightarrow> (\<exists>pre w post. s = pre @ w @ post \<and> accepts email_pattern w)"
  (is "?l \<longleftrightarrow> ?r")
proof
  assume ?l
  then obtain pre host tld post where
    s: "s = pre @ ''@'' @ host @ ''.'' @ tld @ post" and
    h: "host \<noteq> []" "list_all host_char host" "2 \<le> length tld" "list_all ascii_letter tld"
    unfolding has_address_def by blast
  have "accepts email_pattern (''@'' @ host @ ''.'' @ tld)"
    unfolding accepts_email using h by blast
  moreover have "s = pre @ (''@'' @ host @ ''.'' @ tld) @ post" using s by simp
  ultimately show ?r by blast
next
  assume ?r
  then obtain pre w post where s: "s = pre @ w @ post" and a: "accepts email_pattern w" by blast
  from a obtain host tld where w: "w = ''@'' @ host @ ''.'' @ tld" and
    h: "host \<noteq> []" "list_all host_char host" "2 \<le> length tld" "list_all ascii_letter tld"
    unfolding accepts_email by blast
  have "s = pre @ ''@'' @ host @ ''.'' @ tld @ post" using s w by simp
  then show ?l unfolding has_address_def using h by blast
qed

lemma extract_email_domain_None_iff:
  "extract_email_domain L s = None \<longleftrightarrow> \<not> has_address s"
proof -
  have "extract_email_domain L s = None \<longleftrightarrow> re_search email_pattern s = None"
    by (simp add: extract_email_domain_def split: option.splits prod.splits)
  then show ?thesis by (simp add: has_address_iff re_search_None_iff)
qed

lemma has_address_at: "has_address s \<Longrightarrow> CHR ''@'' \<in> set s"
  unfolding has_address_def by auto

text \<open>
  Claim C7. When the sender contains no \<^verbatim>\<open>@\<close> followed by a non-empty block of host
  characters, a dot and at least two letters, \<^verbatim>\<open>extract_email_domain\<close> returns \<^verbatim>\<open>None\<close>
  (it has no raising branch), and \<^verbatim>\<open>extract_features\<close> returns the empty string as
  \<^verbatim>\<open>sender_domain\<close> and \<^verbatim>\<open>True\<close> as \<^verbatim>\<open>sender_is_free_domain\<close>.
\<close>

theorem no_address_defaults:
  "\<not> has_address (sender e) \<Longrightarrow>
   extract_email_domain L (sender e) = None \<and>
   sender_domain (extract_features L e) = [] \<and>
   sender_is_free_domain (extract_features L e) = True"
proof -
  assume "\<not> has_address (sender e)"
  then have n: "extract_email_domain L (sender e) = None"
    by (simp add: extract_email_domain_None_iff)
  then show ?thesis by (simp add: extract_features_def Let_def)
qed

theorem no_address_defaults_witness:
  "\<not> has_address ''Bob Smith'' \<and>
   extract_email_domain plain_lib ''Bob Smith'' = None \<and>
   sender_domain (extract_features plain_lib
     \<lparr>sender = ''Bob Smith'', subject = ''hi'', body = ''there''\<rparr>) = [] \<and>
   sender_is_free_domain (extract_features plain_lib
     \<lparr>sender = ''Bob Smith'', subject = ''hi'', body = ''there''\<rparr>) = True"
proof -
  have h: "\<not> has_address ''Bob Smith''"
    using has_address_at [of "''Bob Smith''"] by auto
  from no_address_defaults [of "\<lparr>sender = ''Bob Smith'', subject = ''hi'', body = ''there''\<rparr>" plain_lib]
    h show ?thesis by simp
qed

section \<open>The decision engine\<close>

text \<open>
  \<^verbatim>\<open>decide_action\<close> always returns a decision: the record of the action and the risk
  computed from the scores after the suppression step and from the features, these scores,
  the evidence of the intent scorer, and the features.
\<close>

lemma decide_action_closed:
  "score_intents L (subject e) (body e) = Inr (sc, ev) \<Longrightarrow>
   decide_action L e =
     Inr \<lparr>action = select_action L (suppress L e sc) (extract_features L e),
          risk = float_round L (total_risk L (suppress L e sc) (extract_features L e)) 2,
          intent_scores = suppress L e sc,
          intent_evidence = ev,
          features = extract_features L e\<rparr>"
  by (simp add: decide_action_def Let_def)

lemma dict_item_dict_set:
  "dict_item (dict_set d k v) k' = (if k' = k then Inr v else dict_item d k')"
  by (simp add: dict_item_def map_of_dict_set)

text \<open>
  Claim C1. Let the scores be those of the intent scorer on the email. If the SUPPORT score
  is at least 1, the SECURITY score is greater than 0, and none of the strong security terms
  (\<^verbatim>\<open>breach\<close>, \<^verbatim>\<open>hack\<close>, \<^verbatim>\<open>phishing\<close>, \<^verbatim>\<open>wire transfer\<close>, \<^verbatim>\<open>bank details\<close>, and the Spanish
  \<^verbatim>\<open>datos bancarios\<close> and \<^verbatim>\<open>transferencia\<close>) occurs in the lower-cased text
  \<^verbatim>\<open>subject + "\n" + body\<close>, then the SECURITY entry of the returned \<^verbatim>\<open>intent_scores\<close> is 0.
  If one of the strong terms occurs, the returned scores are those of the intent scorer, and
  so is the SECURITY score.
\<close>

theorem security_suppression:
  "\<exists>sc ev d.
     score_intents L (subject e) (body e) = Inr (sc, ev) \<and> decide_action L e = Inr d \<and>
     (1 \<le> dict_get sc ''SUPPORT'' 0 \<and> 0 < dict_get sc ''SECURITY'' 0 \<and>
      \<not> (\<exists>t \<in> set [''breach'', ''hack'', ''phishing'', ''wire transfer'', ''bank details'',
                      ''datos bancarios'', ''transferencia''].
            str_in t (str_lower L (subject e @ [CHR 0x0A] @ body e)))
      \<longrightarrow> dict_item (intent_scores d) ''SECURITY'' = Inr 0) \<and>
     ((\<exists>t \<in> set [''breach'', ''hack'', ''phishing'', ''wire transfer'', ''bank details'',
                   ''datos bancarios'', ''transferencia''].
            str_in t (str_lower L (subject e @ [CHR 0x0A] @ body e)))
      \<longrightarrow> intent_scores d = sc \<and>
          dict_get (intent_scores d) ''SECURITY'' 0 = dict_get sc ''SECURITY'' 0)"
proof -
  obtain sc ev where s: "score_intents L (subject e) (body e) = Inr (sc, ev)"
    using score_intents_closed by blast
  let ?strong = "\<exists>t \<in> set [''breach'', ''hack'', ''phishing'', ''wire transfer'', ''bank details'',
                      ''datos bancarios'', ''transferencia''].
            str_in t (str_lower L (subject e @ [CHR 0x0A] @ body e))"
  have hs: "has_strong_security L e = ?strong"
    unfolding has_strong_security_def strong_security_terms_def Let_def list_ex_iff ..
  have a: "1 \<le> dict_get sc ''SUPPORT'' 0 \<and> 0 < dict_get sc ''SECURITY'' 0 \<and>
           \<not> has_strong_security L e
      \<longrightarrow> dict_item (suppress L e sc) ''SECURITY'' = Inr 0"
    by (simp add: suppress_def suppressed_def dict_item_dict_set)
  have b: "has_strong_security L e \<longrightarrow> suppress L e sc = sc"
    by (simp add: suppress_def suppressed_def)
  have d: "intent_scores \<lparr>action = select_action L (suppress L e sc) (extract_features L e),
          risk = float_round L (total_risk L (suppress L e sc) (extract_features L e)) 2,
          intent_scores = suppress L e sc,
          intent_evidence = ev,
          features = extract_features L e\<rparr> = suppress L e sc"
    by simp
  show ?thesis
    unfolding hs [symmetric]
    apply (intro exI [of _ sc] exI [of _ ev] exI conjI)
       apply (rule s)
      apply (rule decide_action_closed [OF s])
    unfolding d
    using a b by simp_all
qed

theorem security_suppression_witness:
  "(1 \<le> dict_get [(''M_AND_A'', 0), (''LEGAL'', 0), (''SECURITY'', 5), (''SALES'', 0), (''SUPPORT'', 1)] ''SUPPORT'' (0::int)) \<and>
   (0 < dict_get [(''M_AND_A'', 0), (''LEGAL'', 0), (''SECURITY'', 5), (''SALES'', 0), (''SUPPORT'', 1)] ''SECURITY'' (0::int)) \<and>
   \<not> (\<exists>t \<in> set [''breach'', ''hack'', ''phishing'', ''wire transfer'', ''bank details'',
                    ''datos bancarios'', ''transferencia''].
          str_in t (str_lower plain_lib (''reset'' @ [CHR 0x0A] @ ''help''))) \<and>
   (\<exists>d. decide_action plain_lib \<lparr>sender = ''bob'', subject = ''reset'', body = ''help''\<rparr> = Inr d \<and>
        dict_item (intent_scores d) ''SECURITY'' = Inr 0) \<and>
   (\<exists>t \<in> set [''breach'', ''hack'', ''phishing'', ''wire transfer'', ''bank details'',
                    ''datos bancarios'', ''transferencia''].
          str_in t (str_lower plain_lib (''reset'' @ [CHR 0x0A] @ ''help wire transfer''))) \<and>
   (\<exists>d. decide_action plain_lib
          \<lparr>sender = ''bob'', subject = ''reset'', body = ''help wire transfer''\<rparr> = Inr d \<and>
        dict_get (intent_scores d) ''SECURITY'' 0 = 10)"
proof -
  let ?e1 = "\<lparr>sender = ''bob'', subject = ''reset'', body = ''help''\<rparr>"
  let ?e2 = "\<lparr>sender = ''bob'', subject = ''reset'', body = ''help wire transfer''\<rparr>"
  let ?sc1 = "[(''M_AND_A'', 0), (''LEGAL'', 0), (''SECURITY'', 5), (''SALES'', 0), (''SUPPORT'', 1::int)]"
  let ?sc2 = "[(''M_AND_A'', 0), (''LEGAL'', 0), (''SECURITY'', 10), (''SALES'', 0), (''SUPPORT'', 1::int)]"
  have s1: "map_sum id fst (score_intents plain_lib ''reset'' ''help'') = Inr ?sc1"
    by code_simp
  have s2: "map_sum id fst (score_intents plain_lib ''reset'' ''help wire transfer'') = Inr ?sc2"
    by code_simp
  have h1: "1 \<le> dict_get ?sc1 ''SUPPORT'' 0" by code_simp
  have h2: "0 < dict_get ?sc1 ''SECURITY'' 0" by code_simp
  have h3: "\<not> (\<exists>t \<in> set [''breach'', ''hack'', ''phishing'', ''wire transfer'', ''bank details'',
                    ''datos bancarios'', ''transferencia''].
          str_in t (str_lower plain_lib (''reset'' @ [CHR 0x0A] @ ''help'')))"
    by code_simp
  have h4: "\<exists>t \<in> set [''breach'', ''hack'', ''phishing'', ''wire transfer'', ''bank details'',
                    ''datos bancarios'', ''transferencia''].
          str_in t (str_lower plain_lib (''reset'' @ [CHR 0x0A] @ ''help wire transfer''))"
    by code_simp
  have h5: "dict_get ?sc2 ''SECURITY'' 0 = 10" by code_simp
  from security_suppression [of plain_lib ?e1] obtain sc ev d where
    a: "score_intents plain_lib ''reset'' ''help'' = Inr (sc, ev)" and
    b: "decide_action plain_lib ?e1 = Inr d" and
    c: "1 \<le> dict_get sc ''SUPPORT'' 0 \<and> 0 < dict_get sc ''SECURITY'' 0 \<and>
      \<not> (\<exists>t \<in> set [''breach'', ''hack'', ''phishing'', ''wire transfer'', ''bank details'',
                      ''datos bancarios'', ''transferencia''].
            str_in t (str_lower plain_lib (''reset'' @ [CHR 0x0A] @ ''help'')))
      \<longrightarrow> dict_item (intent_scores d) ''SECURITY'' = Inr 0"
    by (simp only: email.select_convs) (elim exE conjE, rule that)
  from a s1 have "sc = ?sc1" by simp
  with c h1 h2 h3 have r1: "dict_item (intent_scores d) ''SECURITY'' = Inr 0"
    by (simp only: simp_thms)
  from security_suppression [of plain_lib ?e2] obtain sc' ev' d' where
    a': "score_intents plain_lib ''reset'' ''help wire transfer'' = Inr (sc', ev')" and
    b': "decide_action plain_lib ?e2 = Inr d'" and
    c': "(\<exists>t \<in> set [''breach'', ''hack'', ''phishing'', ''wire transfer'', ''bank details'',
                   ''datos bancarios'', ''transferencia''].
            str_in t (str_lower plain_lib (''reset'' @ [CHR 0x0A] @ ''help wire transfer'')))
      \<longrightarrow> intent_scores d' = sc' \<and>
          dict_get (intent_scores d') ''SECURITY'' 0 = dict_get sc' ''SECURITY'' 0"
    by (simp only: email.select_convs) (elim exE conjE, rule that)
  from a' s2 have "sc' = ?sc2" by simp
  with c' h4 h5 have r2: "dict_get (intent_scores d') ''SECURITY'' 0 = 10"
    by (simp only: simp_thms)
  from b r1 have g1: "\<exists>d. decide_action plain_lib ?e1 = Inr d \<and>
        dict_item (intent_scores d) ''SECURITY'' = Inr 0" by (intro exI conjI)
  from b' r2 have g2: "\<exists>d. decide_action plain_lib ?e2 = Inr d \<and>
        dict_get (intent_scores d) ''SECURITY'' 0 = 10" by (intro exI conjI)
  from h1 h2 h3 g1 h4 g2 show ?thesis by (intro conjI)
qed

lemma select_action_rules:
  "action d = select_action L (intent_scores d) (features d) \<Longrightarrow>
     (let sec = dict_get (intent_scores d) ''SECURITY'' 0;
          mna = dict_get (intent_scores d) ''M_AND_A'' 0;
          legal = dict_get (intent_scores d) ''LEGAL'' 0;
          f = features d;
          penalty = trust_penalty L (intent_scores d) f;
          total = total_risk L (intent_scores d) f
      in action d =
          (if 10 \<le> sec \<and> float_ge L penalty 3 then ''BLOCK''
           else if 5 \<le> mna \<or> 8 \<le> legal then ''ESCALATE_HUMAN''
           else if mentions_roles f \<and> mentions_urgency f \<and> money_mentions f \<noteq> []
             then ''ESCALATE_HUMAN''
           else if float_ge L total 10 then ''ESCALATE_HUMAN''
           else ''AUTO_REPLY''))"
  by (simp add: select_action_def Let_def)

text \<open>
  Claim C3. The action of the returned decision is selected by the first rule that matches,
  over the scores after the suppression step: (a) SECURITY score at least 10 and trust
  penalty at least 3 give \<^verbatim>\<open>BLOCK\<close>; (b) M_AND_A score at least 5 or LEGAL score at least 8
  give \<^verbatim>\<open>ESCALATE_HUMAN\<close>; (c) roles, urgency and a money mention together give
  \<^verbatim>\<open>ESCALATE_HUMAN\<close>; (d) a total risk of at least 10 gives \<^verbatim>\<open>ESCALATE_HUMAN\<close>;
  (e) otherwise the action is \<^verbatim>\<open>AUTO_REPLY\<close>.
\<close>

theorem action_selection:
  "\<exists>sc ev d.
     score_intents L (subject e) (body e) = Inr (sc, ev) \<and>
     decide_action L e = Inr d \<and>
     intent_scores d = suppress L e sc \<and>
     features d = extract_features L e \<and>
     (let sec = dict_get (intent_scores d) ''SECURITY'' 0;
          mna = dict_get (intent_scores d) ''M_AND_A'' 0;
          legal = dict_get (intent_scores d) ''LEGAL'' 0;
          f = features d;
          penalty = trust_penalty L (intent_scores d) f;
          total = total_risk L (intent_scores d) f
      in action d =
          (if 10 \<le> sec \<and> float_ge L penalty 3 then ''BLOCK''
           else if 5 \<le> mna \<or> 8 \<le> legal then ''ESCALATE_HUMAN''
           else if mentions_roles f \<and> mentions_urgency f \<and> money_mentions f \<noteq> []
             then ''ESCALATE_HUMAN''
           else if float_ge L total 10 then ''ESCALATE_HUMAN''
           else ''AUTO_REPLY''))"
proof -
  obtain sc ev where s: "score_intents L (subject e) (body e) = Inr (sc, ev)"
    using score_intents_closed by blast
  let ?d = "\<lparr>action = select_action L (suppress L e sc) (extract_features L e),
          risk = float_round L (total_risk L (suppress L e sc) (extract_features L e)) 2,
          intent_scores = suppress L e sc,
          intent_evidence = ev,
          features = extract_features L e\<rparr>"
  have d: "decide_action L e = Inr ?d" by (rule decide_action_closed [OF s])
  have a: "action ?d = select_action L (intent_scores ?d) (features ?d)" by simp
  have i: "intent_scores ?d = suppress L e sc" and f: "features ?d = extract_features L e"
    by simp_all
  from s d i f select_action_rules [OF a] show ?thesis by blast
qed

theorem action_selection_witness:
  "(\<exists>d. decide_action plain_lib
          \<lparr>sender = ''ceo@gmail.com'', subject = ''Urgent merger'', body = ''help''\<rparr> = Inr d \<and>
        dict_get (intent_scores d) ''SECURITY'' 0 = 0 \<and>
        dict_get (intent_scores d) ''M_AND_A'' 0 = 5 \<and>
        action d = ''ESCALATE_HUMAN'') \<and>
   (\<exists>d. decide_action plain_lib
          \<lparr>sender = ''bob'', subject = ''reset'', body = ''help''\<rparr> = Inr d \<and>
        dict_get (intent_scores d) ''SECURITY'' 0 = 0 \<and>
        dict_get (intent_scores d) ''M_AND_A'' 0 = 0 \<and>
        dict_get (intent_scores d) ''LEGAL'' 0 = 0 \<and>
        \<not> mentions_roles (features d) \<and>
        \<not> float_ge plain_lib (total_risk plain_lib (intent_scores d) (features d)) 10 \<and>
        action d = ''AUTO_REPLY'')"
proof -
  let ?e1 = "\<lparr>sender = ''ceo@gmail.com'', subject = ''Urgent merger'', body = ''help''\<rparr>"
  let ?sc1 = "[(''M_AND_A'', 5), (''LEGAL'', 0), (''SECURITY'', 0), (''SALES'', 0), (''SUPPORT'', 1)] :: int pydict"
  let ?d1 = "\<lparr>action = ''ESCALATE_HUMAN'', risk = 10,
        intent_scores = [(''M_AND_A'', 5), (''LEGAL'', 0), (''SECURITY'', 0), (''SALES'', 0), (''SUPPORT'', 1)],
        intent_evidence =
          [(''M_AND_A'', [''merger'']), (''LEGAL'', []), (''SECURITY'', []),
           (''SALES'', []), (''SUPPORT'', [''help''])],
        features =
          \<lparr>sender_domain = ''gmail.com'', sender_is_free_domain = True,
             mentions_roles = False, role_hits = 0, mentions_urgency = True,
             urgency_hits = 1, money_mentions = [], urls = [], phones = [],
             text_length = 18\<rparr>\<rparr> :: rat decision"
  have ev1: "decide_action plain_lib ?e1 = Inr ?d1" by code_simp
  have v1: "dict_get ?sc1 ''SECURITY'' 0 = 0" "dict_get ?sc1 ''M_AND_A'' 0 = 5"
    by (simp_all add: dict_get_def)
  from action_selection [of plain_lib ?e1] obtain d where
    b1: "decide_action plain_lib ?e1 = Inr d" and
    c1: "(let sec = dict_get (intent_scores d) ''SECURITY'' 0;
          mna = dict_get (intent_scores d) ''M_AND_A'' 0;
          legal = dict_get (intent_scores d) ''LEGAL'' 0;
          f = features d;
          penalty = trust_penalty plain_lib (intent_scores d) f;
          total = total_risk plain_lib (intent_scores d) f
      in action d =
          (if 10 \<le> sec \<and> float_ge plain_lib penalty 3 then ''BLOCK''
           else if 5 \<le> mna \<or> 8 \<le> legal then ''ESCALATE_HUMAN''
           else if mentions_roles f \<and> mentions_urgency f \<and> money_mentions f \<noteq> []
             then ''ESCALATE_HUMAN''
           else if float_ge plain_lib total 10 then ''ESCALATE_HUMAN''
           else ''AUTO_REPLY''))"
    by (elim exE conjE) (rule that)
  from b1 ev1 have d1: "d = ?d1" by simp
  from c1 have a1: "action ?d1 = ''ESCALATE_HUMAN''"
    unfolding d1 Let_def by (simp add: v1)
  have g1: "\<exists>d. decide_action plain_lib ?e1 = Inr d \<and>
        dict_get (intent_scores d) ''SECURITY'' 0 = 0 \<and>
        dict_get (intent_scores d) ''M_AND_A'' 0 = 5 \<and>
        action d = ''ESCALATE_HUMAN''"
    using ev1 v1 a1 by (intro exI [of _ ?d1]) simp
  let ?e2 = "\<lparr>sender = ''bob'', subject = ''reset'', body = ''help''\<rparr>"
  let ?sc2 = "[(''M_AND_A'', 0), (''LEGAL'', 0), (''SECURITY'', 0), (''SALES'', 0), (''SUPPORT'', 1)] :: int pydict"
  let ?f2 = "\<lparr>sender_domain = [], sender_is_free_domain = True,
             mentions_roles = False, role_hits = 0,
             mentions_urgency = False, urgency_hits = 0,
             money_mentions = [], urls = [], phones = [],
             text_length = 10\<rparr>"
  let ?d2 = "\<lparr>action = ''AUTO_REPLY'', risk = 2,
        intent_scores = [(''M_AND_A'', 0), (''LEGAL'', 0), (''SECURITY'', 0), (''SALES'', 0), (''SUPPORT'', 1)],
        intent_evidence =
          [(''M_AND_A'', []), (''LEGAL'', []), (''SECURITY'', [''reset'']),
           (''SALES'', []), (''SUPPORT'', [''help''])],
        features =
          \<lparr>sender_domain = [], sender_is_free_domain = True,
             mentions_roles = False, role_hits = 0,
             mentions_urgency = False, urgency_hits = 0,
             money_mentions = [], urls = [], phones = [],
             text_length = 10\<rparr>\<rparr> :: rat decision"
  have ev2: "decide_action plain_lib ?e2 = Inr ?d2" by code_simp
  have v2: "dict_get ?sc2 ''SECURITY'' 0 = 0" "dict_get ?sc2 ''M_AND_A'' 0 = 0"
    "dict_get ?sc2 ''LEGAL'' 0 = 0"
    by (simp_all add: dict_get_def)
  have t2: "\<not> float_ge plain_lib (total_risk plain_lib ?sc2 ?f2) 10" by code_simp
  from action_selection [of plain_lib ?e2] obtain d' where
    b2: "decide_action plain_lib ?e2 = Inr d'" and
    c2: "(let sec = dict_get (intent_scores d') ''SECURITY'' 0;
          mna = dict_get (intent_scores d') ''M_AND_A'' 0;
          legal = dict_get (intent_scores d') ''LEGAL'' 0;
          f = features d';
          penalty = trust_penalty plain_lib (intent_scores d') f;
          total = total_risk plain_lib (intent_scores d') f
      in action d' =
          (if 10 \<le> sec \<and> float_ge plain_lib penalty 3 then ''BLOCK''
           else if 5 \<le> mna \<or> 8 \<le> legal then ''ESCALATE_HUMAN''
           else if mentions_roles f \<and> mentions_urgency f \<and> money_mentions f \<noteq> []
             then ''ESCALATE_HUMAN''
           else if float_ge plain_lib total 10 then ''ESCALATE_HUMAN''
           else ''AUTO_REPLY''))"
    by (elim exE conjE) (rule that)
  from b2 ev2 have d2: "d' = ?d2" by simp
  from c2 have a2: "action ?d2 = ''AUTO_REPLY''"
    unfolding d2 Let_def using t2 by (simp add: v2)
  have g2: "\<exists>d. decide_action plain_lib ?e2 = Inr d \<and>
        dict_get (intent_scores d) ''SECURITY'' 0 = 0 \<and>
        dict_get (intent_scores d) ''M_AND_A'' 0 = 0 \<and>
        dict_get (intent_scores d) ''LEGAL'' 0 = 0 \<and>
        \<not> mentions_roles (features d) \<and>
        \<not> float_ge plain_lib (total_risk plain_lib (intent_scores d) (features d)) 10 \<and>
        action d = ''AUTO_REPLY''"
    using ev2 v2 a2 t2 by (intro exI [of _ ?d2]) simp
  from g1 g2 show ?thesis by (rule conjI)
qed

lemma trust_penalty_exact:
  assumes "float_add L (float_of L 0) (float_of L 2) = float_of L 2"
    and "float_add L (float_of L 2) (float_of L 2) = float_of L 4"
    and "float_add L (float_of L 4) (float_of L 2) = float_of L 6"
  shows "trust_penalty L sc f =
     float_of L (of_int ((if sender_is_free_domain f then 2 else 0) +
                         (if 2 \<le> length (urls f) then 2 else 0) +
                         (if 1 \<le> length (phones f) \<and> 0 < dict_get sc ''SECURITY'' 0
                          then 2 else 0)))"
  using assms by (simp add: trust_penalty_def Let_def)

lemma risk_components:
  assumes "float_add L (float_of L 0) (float_of L 2) = float_of L 2"
    and "float_add L (float_of L 2) (float_of L 2) = float_of L 4"
    and "float_add L (float_of L 4) (float_of L 2) = float_of L 6"
    and "risk d = float_round L (total_risk L (intent_scores d) (features d)) 2"
  shows
    "(let f = features d;
          mna = float_of L (of_int (dict_get (intent_scores d) ''M_AND_A'' 0));
          sec = float_of L (of_int (dict_get (intent_scores d) ''SECURITY'' 0));
          legal = float_of L (of_int (dict_get (intent_scores d) ''LEGAL'' 0));
          strategic =
            float_add L (float_add L (float_add L (float_add L (float_of L 0)
              (float_mul L mna (float_of L (12 / 10))))
              (float_of L (if mentions_roles f then 4 else 0)))
              (float_of L (if mentions_urgency f then 2 else 0)))
              (float_of L (if money_mentions f \<noteq> [] then 3 else 0));
          operational =
            float_add L (float_add L (float_of L 0)
              (float_mul L sec (float_of L (13 / 10))))
              (float_mul L legal (float_of L (11 / 10)));
          penalty =
            float_of L (of_int
              ((if sender_is_free_domain f then 2 else 0) +
               (if 2 \<le> length (urls f) then 2 else 0) +
               (if 1 \<le> length (phones f) \<and> 0 < dict_get (intent_scores d) ''SECURITY'' 0
                then 2 else 0)))
      in risk d = float_round L (float_add L (float_add L strategic operational) penalty) 2 \<and>
         trust_penalty L (intent_scores d) f = penalty \<and>
         penalty \<in> {float_of L 0, float_of L 2, float_of L 4, float_of L 6})"
proof -
  note tp = trust_penalty_exact [OF assms(1-3), of "intent_scores d" "features d"]
  have 1: "risk d = float_round L
      (float_add L (float_add L (strategic_risk L (intent_scores d) (features d))
                                (operational_risk L (intent_scores d)))
         (trust_penalty L (intent_scores d) (features d))) 2"
    using assms(4) by (simp add: total_risk_def)
  show ?thesis
    unfolding Let_def
    apply (intro conjI)
      apply (simp only: 1 tp strategic_risk_def operational_risk_def Let_def)
     apply (rule tp)
    apply simp
    done
qed

text \<open>
  Claim C4. The risk of the returned decision is \<^verbatim>\<open>round(total, 2)\<close>, where the total is the
  float sum, in this order and with nothing clamped, of the strategic risk (\<^verbatim>\<open>0.0\<close>, plus the
  M_AND_A score times 1.2, plus 4 for roles, 2 for urgency and 3 for a money mention), the
  operational risk (\<^verbatim>\<open>0.0\<close>, plus the SECURITY score after suppression times 1.3, plus the
  LEGAL score times 1.1) and the trust penalty. The three hypotheses say that the float
  additions \<open>0 + 2\<close>, \<open>2 + 2\<close> and \<open>4 + 2\<close> are exact, as they are for IEEE doubles; then the
  trust penalty is 2 for a free sender domain, plus 2 for at least two URLs, plus 2 for a
  phone number together with a positive SECURITY score after suppression: one of 0, 2, 4, 6.
\<close>

theorem risk_formula:
  assumes "float_add L (float_of L 0) (float_of L 2) = float_of L 2"
    and "float_add L (float_of L 2) (float_of L 2) = float_of L 4"
    and "float_add L (float_of L 4) (float_of L 2) = float_of L 6"
  shows "\<exists>sc ev d.
     score_intents L (subject e) (body e) = Inr (sc, ev) \<and>
     decide_action L e = Inr d \<and>
     intent_scores d = suppress L e sc \<and>
     features d = extract_features L e \<and>
     (let f = features d;
          mna = float_of L (of_int (dict_get (intent_scores d) ''M_AND_A'' 0));
          sec = float_of L (of_int (dict_get (intent_scores d) ''SECURITY'' 0));
          legal = float_of L (of_int (dict_get (intent_scores d) ''LEGAL'' 0));
          strategic =
            float_add L (float_add L (float_add L (float_add L (float_of L 0)
              (float_mul L mna (float_of L (12 / 10))))
              (float_of L (if mentions_roles f then 4 else 0)))
              (float_of L (if mentions_urgency f then 2 else 0)))
              (float_of L (if money_mentions f \<noteq> [] then 3 else 0));
          operational =
            float_add L (float_add L (float_of L 0)
              (float_mul L sec (float_of L (13 / 10))))
              (float_mul L legal (float_of L (11 / 10)));
          penalty =
            float_of L (of_int
              ((if sender_is_free_domain f then 2 else 0) +
               (if 2 \<le> length (urls f) then 2 else 0) +
               (if 1 \<le> length (phones f) \<and> 0 < dict_get (intent_scores d) ''SECURITY'' 0
                then 2 else 0)))
      in risk d = float_round L (float_add L (float_add L strategic operational) penalty) 2 \<and>
         trust_penalty L (intent_scores d) f = penalty \<and>
         penalty \<in> {float_of L 0, float_of L 2, float_of L 4, float_of L 6})"
proof -
  obtain sc ev where s: "score_intents L (subject e) (body e) = Inr (sc, ev)"
    using score_intents_closed by blast
  let ?d = "\<lparr>action = select_action L (suppress L e sc) (extract_features L e),
          risk = float_round L (total_risk L (suppress L e sc) (extract_features L e)) 2,
          intent_scores = suppress L e sc,
          intent_evidence = ev,
          features = extract_features L e\<rparr>"
  have d: "decide_action L e = Inr ?d" by (rule decide_action_closed [OF s])
  have r: "risk ?d = float_round L (total_risk L (intent_scores ?d) (features ?d)) 2" by simp
  have i: "intent_scores ?d = suppress L e sc" and f: "features ?d = extract_features L e"
    by simp_all
  from s d i f risk_components [OF assms r] show ?thesis by blast
qed

theorem risk_formula_witness:
  "float_add plain_lib (float_of plain_lib 0) (float_of plain_lib 2) = float_of plain_lib 2 \<and>
   float_add plain_lib (float_of plain_lib 2) (float_of plain_lib 2) = float_of plain_lib 4 \<and>
   float_add plain_lib (float_of plain_lib 4) (float_of plain_lib 2) = float_of plain_lib 6 \<and>
   (\<exists>d. decide_action plain_lib
          \<lparr>sender = ''ceo@gmail.com'', subject = ''Urgent merger'', body = ''help''\<rparr> = Inr d \<and>
        risk d = 10 \<and>
        trust_penalty plain_lib (intent_scores d) (features d) = 2 \<and>
        risk d = float_round plain_lib (5 * (12 / 10) + 2 + 0 + 2) 2)"
proof -
  have h1: "float_add plain_lib (float_of plain_lib 0) (float_of plain_lib 2) = float_of plain_lib 2"
    and h2: "float_add plain_lib (float_of plain_lib 2) (float_of plain_lib 2) = float_of plain_lib 4"
    and h3: "float_add plain_lib (float_of plain_lib 4) (float_of plain_lib 2) = float_of plain_lib 6"
    by (simp_all add: plain_lib_def)
  let ?e1 = "\<lparr>sender = ''ceo@gmail.com'', subject = ''Urgent merger'', body = ''help''\<rparr>"
  let ?sc1 = "[(''M_AND_A'', 5), (''LEGAL'', 0), (''SECURITY'', 0), (''SALES'', 0), (''SUPPORT'', 1)] :: int pydict"
  let ?d1 = "\<lparr>action = ''ESCALATE_HUMAN'', risk = 10,
        intent_scores = [(''M_AND_A'', 5), (''LEGAL'', 0), (''SECURITY'', 0), (''SALES'', 0), (''SUPPORT'', 1)],
        intent_evidence =
          [(''M_AND_A'', [''merger'']), (''LEGAL'', []), (''SECURITY'', []),
           (''SALES'', []), (''SUPPORT'', [''help''])],
        features =
          \<lparr>sender_domain = ''gmail.com'', sender_is_free_domain = True,
             mentions_roles = False, role_hits = 0, mentions_urgency = True,
             urgency_hits = 1, money_mentions = [], urls = [], phones = [],
             text_length = 18\<rparr>\<rparr> :: rat decision"
  have ev1: "decide_action plain_lib ?e1 = Inr ?d1" by code_simp
  have v1: "dict_get ?sc1 ''SECURITY'' 0 = 0" "dict_get ?sc1 ''M_AND_A'' 0 = 5"
    "dict_get ?sc1 ''LEGAL'' 0 = 0"
    by (simp_all add: dict_get_def)
  from risk_formula [OF h1 h2 h3, of ?e1] obtain d where
    b1: "decide_action plain_lib ?e1 = Inr d" and
    c1: "(let f = features d;
          mna = float_of plain_lib (of_int (dict_get (intent_scores d) ''M_AND_A'' 0));
          sec = float_of plain_lib (of_int (dict_get (intent_scores d) ''SECURITY'' 0));
          legal = float_of plain_lib (of_int (dict_get (intent_scores d) ''LEGAL'' 0));
          strategic =
            float_add plain_lib (float_add plain_lib (float_add plain_lib (float_add plain_lib (float_of plain_lib 0)
              (float_mul plain_lib mna (float_of plain_lib (12 / 10))))
              (float_of plain_lib (if mentions_roles f then 4 else 0)))
              (float_of plain_lib (if mentions_urgency f then 2 else 0)))
              (float_of plain_lib (if money_mentions f \<noteq> [] then 3 else 0));
          operational =
            float_add plain_lib (float_add plain_lib (float_of plain_lib 0)
              (float_mul plain_lib sec (float_of plain_lib (13 / 10))))
              (float_mul plain_lib legal (float_of plain_lib (11 / 10)));
          penalty =
            float_of plain_lib (of_int
              ((if sender_is_free_domain f then 2 else 0) +
               (if 2 \<le> length (urls f) then 2 else 0) +
               (if 1 \<le> length (phones f) \<and> 0 < dict_get (intent_scores d) ''SECURITY'' 0
                then 2 else 0)))
      in risk d = float_round plain_lib (float_add plain_lib (float_add plain_lib strategic operational) penalty) 2 \<and>
         trust_penalty plain_lib (intent_scores d) f = penalty \<and>
         penalty \<in> {float_of plain_lib 0, float_of plain_lib 2, float_of plain_lib 4, float_of plain_lib 6})"
    by (elim exE conjE) (rule that)
  from b1 ev1 have d1: "d = ?d1" by simp
  from c1 have r1: "risk ?d1 = float_round plain_lib (5 * (12 / 10) + 2 + 0 + 2) 2"
    and p1: "trust_penalty plain_lib (intent_scores ?d1) (features ?d1) = 2"
    unfolding d1 Let_def by (simp_all add: v1 plain_lib_def)
  have "risk ?d1 = 10" by simp
  with ev1 r1 p1 have "\<exists>d. decide_action plain_lib ?e1 = Inr d \<and>
        risk d = 10 \<and>
        trust_penalty plain_lib (intent_scores d) (features d) = 2 \<and>
        risk d = float_round plain_lib (5 * (12 / 10) + 2 + 0 + 2) 2"
    by (intro exI [of _ ?d1] conjI)
  with h1 h2 h3 show ?thesis by (intro conjI)
qed

section \<open>Counting terms\<close>

lemma count_any_length:
  "count_any L text ts = int (length (filter (\<lambda>tm. str_in tm (str_lower L text)) ts))"
  by (simp add: count_any_def Let_def sum_list_triv)

lemma count_any_distinct:
  "distinct ts \<Longrightarrow>
   count_any L text ts = int (card {tm \<in> set ts. str_in tm (str_lower L text)})"
proof -
  let ?P = "\<lambda>tm. str_in tm (str_lower L text)"
  assume "distinct ts"
  then have "distinct (filter ?P ts)" by simp
  then have "card (set (filter ?P ts)) = length (filter ?P ts)" by (rule distinct_card)
  moreover have "set (filter ?P ts) = {tm \<in> set ts. ?P tm}" by auto
  ultimately show ?thesis by (simp add: count_any_length)
qed

text \<open>
  Claim C2. \<^verbatim>\<open>count_any\<close> counts the entries of the list that occur in the lower-cased text,
  each entry once for every time it stands in the list. \<^verbatim>\<open>ROLE_TERMS\<close> lists \<^verbatim>\<open>director\<close>
  twice: on the text \<^verbatim>\<open>director\<close> the count is 3 (\<^verbatim>\<open>cto\<close> and twice \<^verbatim>\<open>director\<close>), while
  two distinct terms occur.
\<close>

theorem count_any_counts_duplicates:
  "count_any plain_lib ''director'' ROLE_TERMS = 3 \<and>
   card {tm \<in> set ROLE_TERMS. str_in tm (str_lower plain_lib ''director'')} = 2 \<and>
   count_any plain_lib ''director'' [''director'', ''director''] = 2"
  by code_simp

section \<open>Keys, scores and evidence\<close>

lemma dict_item_key:
  "k \<in> set (dict_keys d) \<Longrightarrow> \<exists>v. dict_item d k = Inr v"
proof -
  assume "k \<in> set (dict_keys d)"
  then have "map_of d k \<noteq> None" by (simp add: dict_keys_def map_of_eq_None_iff)
  then show ?thesis by (auto simp: dict_item_def)
qed

lemma dict_get_item: "dict_item d k = Inr v \<Longrightarrow> dict_get d k x = v"
  by (auto simp: dict_item_def dict_get_def split: option.splits)

lemma score_intents_keys:
  "score_intents L subj bdy = Inr (sc, ev) \<Longrightarrow>
   dict_keys sc = [''M_AND_A'', ''LEGAL'', ''SECURITY'', ''SALES'', ''SUPPORT''] \<and>
   dict_keys ev = [''M_AND_A'', ''LEGAL'', ''SECURITY'', ''SALES'', ''SUPPORT'']"
  unfolding score_intents_closed
  by (auto simp: dict_keys_map_rules INTENT_RULES_keys)

lemma suppress_keys:
  "''SECURITY'' \<in> set (dict_keys sc) \<Longrightarrow> dict_keys (suppress L e sc) = dict_keys sc"
  by (simp add: suppress_def dict_keys_dict_set)

lemma suppress_item_other:
  "k \<noteq> ''SECURITY'' \<Longrightarrow> dict_item (suppress L e sc) k = dict_item sc k"
  by (simp add: suppress_def dict_item_dict_set)

lemma score_intents_entry:
  assumes "score_intents L subj bdy = Inr (sc, ev)" and "(k, r) \<in> set INTENT_RULES"
  shows "dict_item sc k =
           Inr (weight r * int (length (remdups (rule_hits L (score_text L subj bdy) r))))"
    and "dict_item ev k = Inr (sort (remdups (rule_hits L (score_text L subj bdy) r)))"
proof -
  have d: "distinct (map fst INTENT_RULES)" by (simp add: INTENT_RULES_keys)
  from assms(1) have sc: "sc = map (\<lambda>(k, r). (k, weight r *
        int (length (remdups (rule_hits L (score_text L subj bdy) r))))) INTENT_RULES"
    and ev: "ev = map (\<lambda>(k, r). (k, sort (remdups (rule_hits L (score_text L subj bdy) r))))
        INTENT_RULES"
    unfolding score_intents_closed by simp_all
  show "dict_item sc k =
           Inr (weight r * int (length (remdups (rule_hits L (score_text L subj bdy) r))))"
    unfolding sc by (rule dict_item_map_rules [OF d assms(2)])
  show "dict_item ev k = Inr (sort (remdups (rule_hits L (score_text L subj bdy) r)))"
    unfolding ev by (rule dict_item_map_rules [OF d assms(2)])
qed

lemma sort_remdups_Nil: "(sort (remdups xs) = []) = (xs = [])"
proof -
  have "(sort (remdups xs) = []) = (set (sort (remdups xs)) = {})" by (simp only: set_empty)
  also have "\<dots> = (xs = [])" by simp
  finally show ?thesis .
qed

lemma INTENT_RULES_weight: "(k, r) \<in> set INTENT_RULES \<Longrightarrow> 0 < weight r"
  by (auto simp: INTENT_RULES_def)

lemma security_rule: "(''SECURITY'', \<lparr>weight = 5, terms = SECURITY_TERMS\<rparr>) \<in> set INTENT_RULES"
  by (simp add: INTENT_RULES_def)

text \<open>
  Claim C9. For every email, the five categories M_AND_A, LEGAL, SECURITY, SALES and SUPPORT
  are the keys of the scores and of the evidence that \<^verbatim>\<open>score_intents\<close> returns, and of the
  \<^verbatim>\<open>intent_scores\<close> and the \<^verbatim>\<open>intent_evidence\<close> of the decision that \<^verbatim>\<open>decide_action\<close>
  returns: the subscript with each of them finds a value, whatever the score and the evidence.
\<close>

theorem intent_keys_present:
  "\<exists>sc ev d.
     score_intents L (subject e) (body e) = Inr (sc, ev) \<and> decide_action L e = Inr d \<and>
     dict_keys sc = [''M_AND_A'', ''LEGAL'', ''SECURITY'', ''SALES'', ''SUPPORT''] \<and>
     dict_keys ev = [''M_AND_A'', ''LEGAL'', ''SECURITY'', ''SALES'', ''SUPPORT''] \<and>
     dict_keys (intent_scores d) = [''M_AND_A'', ''LEGAL'', ''SECURITY'', ''SALES'', ''SUPPORT''] \<and>
     dict_keys (intent_evidence d) = [''M_AND_A'', ''LEGAL'', ''SECURITY'', ''SALES'', ''SUPPORT''] \<and>
     (\<forall>k \<in> set [''M_AND_A'', ''LEGAL'', ''SECURITY'', ''SALES'', ''SUPPORT''].
        (\<exists>v. dict_item sc k = Inr v) \<and> (\<exists>w. dict_item ev k = Inr w) \<and>
        (\<exists>v. dict_item (intent_scores d) k = Inr v) \<and>
        (\<exists>w. dict_item (intent_evidence d) k = Inr w))"
proof -
  obtain sc ev where s: "score_intents L (subject e) (body e) = Inr (sc, ev)"
    using score_intents_closed by blast
  let ?K = "[''M_AND_A'', ''LEGAL'', ''SECURITY'', ''SALES'', ''SUPPORT'']"
  let ?d = "\<lparr>action = select_action L (suppress L e sc) (extract_features L e),
          risk = float_round L (total_risk L (suppress L e sc) (extract_features L e)) 2,
          intent_scores = suppress L e sc,
          intent_evidence = ev,
          features = extract_features L e\<rparr>"
  have d: "decide_action L e = Inr ?d" by (rule decide_action_closed [OF s])
  from score_intents_keys [OF s] have k1: "dict_keys sc = ?K" and k2: "dict_keys ev = ?K"
    by simp_all
  have k3: "dict_keys (intent_scores ?d) = ?K"
    using suppress_keys [of sc L e] k1 by simp
  have k4: "dict_keys (intent_evidence ?d) = ?K" using k2 by simp
  have each: "(\<exists>v. dict_item sc k = Inr v) \<and> (\<exists>w. dict_item ev k = Inr w) \<and>
        (\<exists>v. dict_item (intent_scores ?d) k = Inr v) \<and>
        (\<exists>w. dict_item (intent_evidence ?d) k = Inr w)" if "k \<in> set ?K" for k
    using that dict_item_key [of k sc] dict_item_key [of k ev]
      dict_item_key [of k "intent_scores ?d"] dict_item_key [of k "intent_evidence ?d"]
    unfolding k1 k2 k3 k4 by blast
  have all: "\<forall>k \<in> set ?K.
        (\<exists>v. dict_item sc k = Inr v) \<and> (\<exists>w. dict_item ev k = Inr w) \<and>
        (\<exists>v. dict_item (intent_scores ?d) k = Inr v) \<and>
        (\<exists>w. dict_item (intent_evidence ?d) k = Inr w)"
    by (rule ballI) (rule each)
  show ?thesis
    by (rule exI [of _ sc], rule exI [of _ ev], rule exI [of _ ?d])
       (intro conjI; fact s d k1 k2 k3 k4 all)
qed

theorem intent_keys_present_witness:
  "\<exists>d. decide_action plain_lib \<lparr>sender = ''bob'', subject = ''reset'', body = ''help''\<rparr> = Inr d \<and>
      dict_keys (intent_scores d) = [''M_AND_A'', ''LEGAL'', ''SECURITY'', ''SALES'', ''SUPPORT''] \<and>
      dict_keys (intent_evidence d) = [''M_AND_A'', ''LEGAL'', ''SECURITY'', ''SALES'', ''SUPPORT''] \<and>
      dict_item (intent_scores d) ''SALES'' = Inr 0 \<and>
      dict_item (intent_evidence d) ''SALES'' = Inr []"
proof -
  let ?e = "\<lparr>sender = ''bob'', subject = ''reset'', body = ''help''\<rparr>"
  let ?d = "\<lparr>action = ''AUTO_REPLY'', risk = 2,
        intent_scores = [(''M_AND_A'', 0), (''LEGAL'', 0), (''SECURITY'', 0), (''SALES'', 0), (''SUPPORT'', 1)],
        intent_evidence =
          [(''M_AND_A'', []), (''LEGAL'', []), (''SECURITY'', [''reset'']),
           (''SALES'', []), (''SUPPORT'', [''help''])],
        features =
          \<lparr>sender_domain = [], sender_is_free_domain = True,
             mentions_roles = False, role_hits = 0,
             mentions_urgency = False, urgency_hits = 0,
             money_mentions = [], urls = [], phones = [],
             text_length = 10\<rparr>\<rparr> :: rat decision"
  have ev: "decide_action plain_lib ?e = Inr ?d" by code_simp
  from intent_keys_present [of plain_lib ?e] obtain d where
    b: "decide_action plain_lib ?e = Inr d" and
    k3: "dict_keys (intent_scores d) = [''M_AND_A'', ''LEGAL'', ''SECURITY'', ''SALES'', ''SUPPORT'']" and
    k4: "dict_keys (intent_evidence d) = [''M_AND_A'', ''LEGAL'', ''SECURITY'', ''SALES'', ''SUPPORT'']" and
    all: "\<forall>k \<in> set [''M_AND_A'', ''LEGAL'', ''SECURITY'', ''SALES'', ''SUPPORT''].
        (\<exists>v. dict_item (intent_scores d) k = Inr v) \<and>
        (\<exists>w. dict_item (intent_evidence d) k = Inr w)"
    by (elim exE conjE) (rule that, assumption+, blast)
  from b ev have dd: "d = ?d" by simp
  from all have "(\<exists>v. dict_item (intent_scores d) ''SALES'' = Inr v) \<and>
        (\<exists>w. dict_item (intent_evidence d) ''SALES'' = Inr w)" by simp
  then obtain v w where v: "dict_item (intent_scores d) ''SALES'' = Inr v"
    and w: "dict_item (intent_evidence d) ''SALES'' = Inr w" by blast
  from v have v0: "v = 0" unfolding dd by (simp add: dict_item_def)
  from w have w0: "w = []" unfolding dd by (simp add: dict_item_def)
  from b k3 k4 v w show ?thesis unfolding v0 w0 by (intro exI [of _ d] conjI)
qed

text \<open>
  Claim C10. In the output of \<^verbatim>\<open>score_intents\<close>, the score of every category is its weight
  times the length of its evidence, so the evidence is empty exactly when the score is 0.
  In the decision of \<^verbatim>\<open>decide_action\<close> the equivalence still holds for every category other
  than SECURITY, and for SECURITY unless the suppression rule fires.
\<close>

theorem score_evidence_relation:
  "\<exists>sc ev d.
     score_intents L (subject e) (body e) = Inr (sc, ev) \<and> decide_action L e = Inr d \<and>
     (\<forall>(k, r) \<in> set INTENT_RULES.
        \<exists>s evk. dict_item sc k = Inr s \<and> dict_item ev k = Inr evk \<and>
          s = weight r * int (length evk) \<and> (evk = [] \<longleftrightarrow> s = 0)) \<and>
     (\<forall>(k, r) \<in> set INTENT_RULES.
        k \<noteq> ''SECURITY'' \<or> \<not> suppressed L e sc \<longrightarrow>
        (\<exists>s evk. dict_item (intent_scores d) k = Inr s \<and>
           dict_item (intent_evidence d) k = Inr evk \<and> (evk = [] \<longleftrightarrow> s = 0)))"
proof -
  obtain sc ev where s: "score_intents L (subject e) (body e) = Inr (sc, ev)"
    using score_intents_closed by blast
  let ?d = "\<lparr>action = select_action L (suppress L e sc) (extract_features L e),
          risk = float_round L (total_risk L (suppress L e sc) (extract_features L e)) 2,
          intent_scores = suppress L e sc,
          intent_evidence = ev,
          features = extract_features L e\<rparr>"
  have d: "decide_action L e = Inr ?d" by (rule decide_action_closed [OF s])
  have rel: "\<exists>s evk. dict_item sc k = Inr s \<and> dict_item ev k = Inr evk \<and>
          s = weight r * int (length evk) \<and> (evk = [] \<longleftrightarrow> s = 0)"
    if m: "(k, r) \<in> set INTENT_RULES" for k r
  proof -
    let ?h = "sort (remdups (rule_hits L (score_text L (subject e) (body e)) r))"
    have 1: "dict_item sc k = Inr (weight r * int (length ?h))"
      using score_intents_entry(1) [OF s m] by simp
    have 2: "dict_item ev k = Inr ?h" by (rule score_intents_entry(2) [OF s m])
    have 3: "?h = [] \<longleftrightarrow> weight r * int (length ?h) = 0"
      using INTENT_RULES_weight [OF m] by (simp add: sort_remdups_Nil)
    from 1 2 3 show ?thesis by blast
  qed
  have rel': "\<exists>s evk. dict_item (intent_scores ?d) k = Inr s \<and>
           dict_item (intent_evidence ?d) k = Inr evk \<and> (evk = [] \<longleftrightarrow> s = 0)"
    if m: "(k, r) \<in> set INTENT_RULES" and c: "k \<noteq> ''SECURITY'' \<or> \<not> suppressed L e sc" for k r
  proof -
    have "dict_item (suppress L e sc) k = dict_item sc k"
    proof (cases "k = ''SECURITY''")
      case True
      with c have "\<not> suppressed L e sc" by simp
      then show ?thesis by (simp add: suppress_def)
    next
      case False
      then show ?thesis by (rule suppress_item_other)
    qed
    moreover from rel [OF m] obtain s' evk where "dict_item sc k = Inr s'"
      "dict_item ev k = Inr evk" "evk = [] \<longleftrightarrow> s' = 0" by blast
    ultimately show ?thesis by simp
  qed
  have a1: "\<forall>(k, r) \<in> set INTENT_RULES.
        \<exists>s evk. dict_item sc k = Inr s \<and> dict_item ev k = Inr evk \<and>
          s = weight r * int (length evk) \<and> (evk = [] \<longleftrightarrow> s = 0)"
  proof (rule ballI)
    fix x assume m: "x \<in> set INTENT_RULES"
    obtain k r where x: "x = (k, r)" by (cases x)
    show "case x of (k, r) \<Rightarrow>
        \<exists>s evk. dict_item sc k = Inr s \<and> dict_item ev k = Inr evk \<and>
          s = weight r * int (length evk) \<and> (evk = [] \<longleftrightarrow> s = 0)"
      unfolding x prod.case using m [unfolded x] by (rule rel)
  qed
  have a2: "\<forall>(k, r) \<in> set INTENT_RULES.
        k \<noteq> ''SECURITY'' \<or> \<not> suppressed L e sc \<longrightarrow>
        (\<exists>s evk. dict_item (intent_scores ?d) k = Inr s \<and>
           dict_item (intent_evidence ?d) k = Inr evk \<and> (evk = [] \<longleftrightarrow> s = 0))"
  proof (rule ballI)
    fix x assume m: "x \<in> set INTENT_RULES"
    obtain k r where x: "x = (k, r)" by (cases x)
    show "case x of (k, r) \<Rightarrow>
        k \<noteq> ''SECURITY'' \<or> \<not> suppressed L e sc \<longrightarrow>
        (\<exists>s evk. dict_item (intent_scores ?d) k = Inr s \<and>
           dict_item (intent_evidence ?d) k = Inr evk \<and> (evk = [] \<longleftrightarrow> s = 0))"
      unfolding x prod.case using m [unfolded x] by (intro impI) (rule rel')
  qed
  show ?thesis
    by (rule exI [of _ sc], rule exI [of _ ev], rule exI [of _ ?d])
       (intro conjI; fact s d a1 a2)
qed

theorem score_evidence_relation_witness:
  "score_intents plain_lib ''reset'' ''help'' =
     Inr ([(''M_AND_A'', 0), (''LEGAL'', 0), (''SECURITY'', 5), (''SALES'', 0), (''SUPPORT'', 1)],
          [(''M_AND_A'', []), (''LEGAL'', []), (''SECURITY'', [''reset'']),
           (''SALES'', []), (''SUPPORT'', [''help''])]) \<and>
   (''SECURITY'', \<lparr>weight = 5, terms = SECURITY_TERMS\<rparr>) \<in> set INTENT_RULES \<and>
   dict_item [(''M_AND_A'', []), (''LEGAL'', []), (''SECURITY'', [''reset'']),
           (''SALES'', []), (''SUPPORT'', [''help''])] ''SECURITY'' = Inr [''reset''] \<and>
   dict_item ([(''M_AND_A'', 0), (''LEGAL'', 0), (''SECURITY'', 5), (''SALES'', 0), (''SUPPORT'', 1)] :: int pydict) ''SECURITY'' = Inr (5 * int (length [''reset'']))"
proof -
  let ?e = "\<lparr>sender = ''bob'', subject = ''reset'', body = ''help''\<rparr>"
  let ?sc = "[(''M_AND_A'', 0), (''LEGAL'', 0), (''SECURITY'', 5), (''SALES'', 0), (''SUPPORT'', 1)] :: int pydict"
  let ?ev = "[(''M_AND_A'', []), (''LEGAL'', []), (''SECURITY'', [''reset'']),
           (''SALES'', []), (''SUPPORT'', [''help''])]"
  have ev: "score_intents plain_lib ''reset'' ''help'' = Inr (?sc, ?ev)" by code_simp
  from score_evidence_relation [of plain_lib ?e] obtain sc ev where
    a: "score_intents plain_lib ''reset'' ''help'' = Inr (sc, ev)" and
    all: "\<forall>(k, r) \<in> set INTENT_RULES.
        \<exists>s evk. dict_item sc k = Inr s \<and> dict_item ev k = Inr evk \<and>
          s = weight r * int (length evk) \<and> (evk = [] \<longleftrightarrow> s = 0)"
    by (simp only: email.select_convs) (elim exE conjE, rule that)
  from a ev have sc: "sc = ?sc" and e: "ev = ?ev" by simp_all
  from all security_rule obtain s evk where
    1: "dict_item sc ''SECURITY'' = Inr s" and 2: "dict_item ev ''SECURITY'' = Inr evk" and
    3: "s = 5 * int (length evk)"
    by fastforce
  from 2 have evk: "evk = [''reset'']" unfolding e by (simp add: dict_item_def)
  from 1 3 have 4: "dict_item ?sc ''SECURITY'' = Inr (5 * int (length [''reset'']))"
    unfolding sc evk by simp
  have 5: "dict_item ?ev ''SECURITY'' = Inr [''reset'']" using 2 unfolding e evk .
  from ev security_rule 5 4 show ?thesis by (intro conjI)
qed

text \<open>
  Claim C6, as amended. When the suppression rule fires (SUPPORT score at least 1, SECURITY
  score greater than 0, no strong security term), the returned \<^verbatim>\<open>intent_evidence\<close> is the
  evidence of the intent scorer, and its SECURITY entry is the non-empty sorted list of the
  security terms that matched; the returned \<^verbatim>\<open>features\<close> are those of the feature extractor;
  and the returned \<^verbatim>\<open>intent_scores\<close> are the scores of the intent scorer with the SECURITY
  entry set to 0: same keys, every other entry unchanged. The action and the risk are not
  left as they would be without suppression: they are computed after this step, from the
  scores it leaves and from the features.
\<close>

theorem suppression_frame:
  "\<exists>sc ev d.
     score_intents L (subject e) (body e) = Inr (sc, ev) \<and> decide_action L e = Inr d \<and>
     (1 \<le> dict_get sc ''SUPPORT'' 0 \<and> 0 < dict_get sc ''SECURITY'' 0 \<and>
      \<not> has_strong_security L e \<longrightarrow>
        intent_evidence d = ev \<and>
        (\<exists>evs. dict_item (intent_evidence d) ''SECURITY'' = Inr evs \<and> evs \<noteq> [] \<and>
           sorted evs \<and> distinct evs \<and>
           set evs = {t \<in> set SECURITY_TERMS.
                       str_in (str_lower L t) (str_lower L (subject e @ [CHR 0x0A] @ body e))}) \<and>
        features d = extract_features L e \<and>
        intent_scores d = dict_set sc ''SECURITY'' 0 \<and>
        dict_keys (intent_scores d) = dict_keys sc \<and>
        dict_item (intent_scores d) ''SECURITY'' = Inr 0 \<and>
        (\<forall>k. k \<noteq> ''SECURITY'' \<longrightarrow> dict_item (intent_scores d) k = dict_item sc k) \<and>
        action d = select_action L (intent_scores d) (features d) \<and>
        risk d = float_round L (total_risk L (intent_scores d) (features d)) 2)"
proof -
  obtain sc ev where s: "score_intents L (subject e) (body e) = Inr (sc, ev)"
    using score_intents_closed by blast
  let ?d = "\<lparr>action = select_action L (suppress L e sc) (extract_features L e),
          risk = float_round L (total_risk L (suppress L e sc) (extract_features L e)) 2,
          intent_scores = suppress L e sc,
          intent_evidence = ev,
          features = extract_features L e\<rparr>"
  have d: "decide_action L e = Inr ?d" by (rule decide_action_closed [OF s])
  let ?r = "\<lparr>weight = 5, terms = SECURITY_TERMS\<rparr>"
  let ?h = "sort (remdups (rule_hits L (score_text L (subject e) (body e)) ?r))"
  have frame: "intent_evidence ?d = ev \<and>
        (\<exists>evs. dict_item (intent_evidence ?d) ''SECURITY'' = Inr evs \<and> evs \<noteq> [] \<and>
           sorted evs \<and> distinct evs \<and>
           set evs = {t \<in> set SECURITY_TERMS.
                       str_in (str_lower L t) (str_lower L (subject e @ [CHR 0x0A] @ body e))}) \<and>
        features ?d = extract_features L e \<and>
        intent_scores ?d = dict_set sc ''SECURITY'' 0 \<and>
        dict_keys (intent_scores ?d) = dict_keys sc \<and>
        dict_item (intent_scores ?d) ''SECURITY'' = Inr 0 \<and>
        (\<forall>k. k \<noteq> ''SECURITY'' \<longrightarrow> dict_item (intent_scores ?d) k = dict_item sc k) \<and>
        action ?d = select_action L (intent_scores ?d) (features ?d) \<and>
        risk ?d = float_round L (total_risk L (intent_scores ?d) (features ?d)) 2"
    if c: "1 \<le> dict_get sc ''SUPPORT'' 0 \<and> 0 < dict_get sc ''SECURITY'' 0 \<and>
      \<not> has_strong_security L e"
  proof -
    from c have sup: "suppress L e sc = dict_set sc ''SECURITY'' 0"
      by (simp add: suppress_def suppressed_def)
    have 1: "dict_item sc ''SECURITY'' = Inr (5 * int (length ?h))"
      using score_intents_entry(1) [OF s security_rule] by simp
    have 2: "dict_item ev ''SECURITY'' = Inr ?h"
      by (rule score_intents_entry(2) [OF s security_rule])
    from c dict_get_item [OF 1, of 0] have ne: "?h \<noteq> []"
      by (auto simp: sort_remdups_Nil)
    have 3: "set ?h = {t \<in> set SECURITY_TERMS.
                       str_in (str_lower L t) (str_lower L (subject e @ [CHR 0x0A] @ body e))}"
      by (simp add: rule_hits_set score_text_def)
    have 4: "sorted ?h \<and> distinct ?h" by simp
    have ex: "\<exists>evs. dict_item ev ''SECURITY'' = Inr evs \<and> evs \<noteq> [] \<and>
           sorted evs \<and> distinct evs \<and>
           set evs = {t \<in> set SECURITY_TERMS.
                       str_in (str_lower L t) (str_lower L (subject e @ [CHR 0x0A] @ body e))}"
      using 2 ne 3 4 by (intro exI [of _ ?h]) (simp only: simp_thms)
    have "''SECURITY'' \<in> set (dict_keys sc)"
      using score_intents_keys [OF s] by simp
    then have 5: "dict_keys (suppress L e sc) = dict_keys sc" by (rule suppress_keys)
    have 6: "dict_item (suppress L e sc) ''SECURITY'' = Inr 0"
      unfolding sup by (simp add: dict_item_dict_set)
    have 7: "\<forall>k. k \<noteq> ''SECURITY'' \<longrightarrow> dict_item (suppress L e sc) k = dict_item sc k"
      by (simp add: suppress_item_other)
    show ?thesis using ex sup 5 6 7 by simp
  qed
  have imp: "1 \<le> dict_get sc ''SUPPORT'' 0 \<and> 0 < dict_get sc ''SECURITY'' 0 \<and>
      \<not> has_strong_security L e \<longrightarrow>
        intent_evidence ?d = ev \<and>
        (\<exists>evs. dict_item (intent_evidence ?d) ''SECURITY'' = Inr evs \<and> evs \<noteq> [] \<and>
           sorted evs \<and> distinct evs \<and>
           set evs = {t \<in> set SECURITY_TERMS.
                       str_in (str_lower L t) (str_lower L (subject e @ [CHR 0x0A] @ body e))}) \<and>
        features ?d = extract_features L e \<and>
        intent_scores ?d = dict_set sc ''SECURITY'' 0 \<and>
        dict_keys (intent_scores ?d) = dict_keys sc \<and>
        dict_item (intent_scores ?d) ''SECURITY'' = Inr 0 \<and>
        (\<forall>k. k \<noteq> ''SECURITY'' \<longrightarrow> dict_item (intent_scores ?d) k = dict_item sc k) \<and>
        action ?d = select_action L (intent_scores ?d) (features ?d) \<and>
        risk ?d = float_round L (total_risk L (intent_scores ?d) (features ?d)) 2"
    by (rule impI) (rule frame)
  show ?thesis
    by (rule exI [of _ sc], rule exI [of _ ev], rule exI [of _ ?d])
       (intro conjI; fact s d imp)
qed

theorem suppression_frame_witness:
  "1 \<le> dict_get ([(''M_AND_A'', 0), (''LEGAL'', 0), (''SECURITY'', 5), (''SALES'', 0), (''SUPPORT'', 1)] :: int pydict) ''SUPPORT'' 0 \<and>
   0 < dict_get ([(''M_AND_A'', 0), (''LEGAL'', 0), (''SECURITY'', 5), (''SALES'', 0), (''SUPPORT'', 1)] :: int pydict) ''SECURITY'' 0 \<and>
   \<not> has_strong_security plain_lib \<lparr>sender = ''bob'', subject = ''reset'', body = ''help''\<rparr> \<and>
   (\<exists>d. decide_action plain_lib \<lparr>sender = ''bob'', subject = ''reset'', body = ''help''\<rparr> = Inr d \<and>
      dict_item (intent_scores d) ''SECURITY'' = Inr 0 \<and>
      dict_item (intent_evidence d) ''SECURITY'' = Inr [''reset''] \<and>
      intent_scores d = dict_set [(''M_AND_A'', 0), (''LEGAL'', 0), (''SECURITY'', 5), (''SALES'', 0), (''SUPPORT'', 1)] ''SECURITY'' 0)"
proof -
  let ?e = "\<lparr>sender = ''bob'', subject = ''reset'', body = ''help''\<rparr>"
  let ?sc = "[(''M_AND_A'', 0), (''LEGAL'', 0), (''SECURITY'', 5), (''SALES'', 0), (''SUPPORT'', 1)] :: int pydict"
  let ?ev = "[(''M_AND_A'', []), (''LEGAL'', []), (''SECURITY'', [''reset'']),
           (''SALES'', []), (''SUPPORT'', [''help''])]"
  have ev: "score_intents plain_lib ''reset'' ''help'' = Inr (?sc, ?ev)" by code_simp
  have h1: "1 \<le> dict_get ?sc ''SUPPORT'' 0" by code_simp
  have h2: "0 < dict_get ?sc ''SECURITY'' 0" by code_simp
  have h3: "\<not> has_strong_security plain_lib ?e" by code_simp
  from suppression_frame [of plain_lib ?e] obtain sc ev d where
    a: "score_intents plain_lib ''reset'' ''help'' = Inr (sc, ev)" and
    b: "decide_action plain_lib ?e = Inr d" and
    c: "1 \<le> dict_get sc ''SUPPORT'' 0 \<and> 0 < dict_get sc ''SECURITY'' 0 \<and>
      \<not> has_strong_security plain_lib ?e \<longrightarrow>
        intent_evidence d = ev \<and>
        (\<exists>evs. dict_item (intent_evidence d) ''SECURITY'' = Inr evs \<and> evs \<noteq> [] \<and>
           sorted evs \<and> distinct evs \<and>
           set evs = {t \<in> set SECURITY_TERMS.
                       str_in (str_lower plain_lib t)
                         (str_lower plain_lib (subject ?e @ [CHR 0x0A] @ body ?e))}) \<and>
        features d = extract_features plain_lib ?e \<and>
        intent_scores d = dict_set sc ''SECURITY'' 0 \<and>
        dict_keys (intent_scores d) = dict_keys sc \<and>
        dict_item (intent_scores d) ''SECURITY'' = Inr 0 \<and>
        (\<forall>k. k \<noteq> ''SECURITY'' \<longrightarrow> dict_item (intent_scores d) k = dict_item sc k) \<and>
        action d = select_action plain_lib (intent_scores d) (features d) \<and>
        risk d = float_round plain_lib (total_risk plain_lib (intent_scores d) (features d)) 2"
    by (elim exE conjE) (rule that, simp_all only: email.select_convs)
  from a ev have sc: "sc = ?sc" and e: "ev = ?ev" by simp_all
  from c h1 h2 h3 have r: "intent_evidence d = ?ev"
    "intent_scores d = dict_set ?sc ''SECURITY'' 0"
    "dict_item (intent_scores d) ''SECURITY'' = Inr 0"
    unfolding sc e by blast+
  have r4: "dict_item (intent_evidence d) ''SECURITY'' = Inr [''reset'']"
    unfolding r(1) by (simp add: dict_item_def)
  from b r(3) r4 r(2) have "\<exists>d. decide_action plain_lib ?e = Inr d \<and>
      dict_item (intent_scores d) ''SECURITY'' = Inr 0 \<and>
      dict_item (intent_evidence d) ''SECURITY'' = Inr [''reset''] \<and>
      intent_scores d = dict_set ?sc ''SECURITY'' 0"
    by (intro exI [of _ d] conjI)
  with h1 h2 h3 show ?thesis by (intro conjI)
qed

section \<open>Totality and defaults\<close>

lemma select_action_range:
  "select_action L sc f \<in> {''AUTO_REPLY'', ''ESCALATE_HUMAN'', ''BLOCK''}"
  by (simp add: select_action_def)

lemma no_hits_score_intents:
  assumes "\<forall>(k, r) \<in> set INTENT_RULES.
             \<forall>t \<in> set (terms r). \<not> str_in (str_lower L t) (score_text L subj bdy)"
  shows "score_intents L subj bdy =
     Inr (map (\<lambda>k. (k, 0)) [''M_AND_A'', ''LEGAL'', ''SECURITY'', ''SALES'', ''SUPPORT''],
          map (\<lambda>k. (k, [])) [''M_AND_A'', ''LEGAL'', ''SECURITY'', ''SALES'', ''SUPPORT''])"
proof -
  have h: "rule_hits L (score_text L subj bdy) r = []" if "(k, r) \<in> set INTENT_RULES" for k r
    using assms that by (auto simp: rule_hits_def filter_empty_conv)
  have 1: "map (\<lambda>(k, r). (k, weight r *
        int (length (remdups (rule_hits L (score_text L subj bdy) r))))) INTENT_RULES =
      map (\<lambda>k. (k, 0)) (map fst INTENT_RULES)"
    using h by (auto simp: comp_def)
  have 2: "map (\<lambda>(k, r). (k, sort (remdups (rule_hits L (score_text L subj bdy) r))))
        INTENT_RULES = map (\<lambda>k. (k, [])) (map fst INTENT_RULES)"
    using h by (auto simp: comp_def)
  show ?thesis
    unfolding score_intents_closed 1 2 INTENT_RULES_keys ..
qed

lemma suppress_zero:
  "suppress L e (map (\<lambda>k. (k, 0)) [''M_AND_A'', ''LEGAL'', ''SECURITY'', ''SALES'', ''SUPPORT'']) =
   map (\<lambda>k. (k, 0)) [''M_AND_A'', ''LEGAL'', ''SECURITY'', ''SALES'', ''SUPPORT'']"
  by (simp add: suppress_def suppressed_def dict_get_def)

lemma no_terms_contains:
  "\<forall>t \<in> set ts. \<not> str_in t (str_lower L raw) \<Longrightarrow>
   \<not> contains_any L raw ts \<and> count_any L raw ts = 0"
  by (simp add: contains_any_def count_any_length list_ex_iff filter_empty_conv)

lemma no_money:
  "\<forall>p \<in> set money_patterns. re_findall L p True raw = [] \<Longrightarrow> find_money L raw = []"
  by (simp add: find_money_def)

text \<open>
  Claim C8. For every email, of three arbitrary strings, \<^verbatim>\<open>decide_action\<close> returns a
  decision and raises no error (the model is a total function, so it terminates; the only
  raising branch, the subscript \<^verbatim>\<open>scores[intent]\<close> of the scorer, is never taken). The
  decision is well formed: the action is one of the three actions, the scores and the
  evidence have the five categories as keys, the features are those of the feature
  extractor. Absence of matches yields the defaults: when no intent term occurs all scores
  are 0 and all evidence lists are empty; when no role or urgency term occurs the flag is
  false and the count is 0; when \<^verbatim>\<open>re.findall\<close> finds nothing the money, URL and phone lists
  are empty; when the sender has no address the domain is empty and counts as free.
\<close>

theorem decide_action_total:
  "\<exists>d. decide_action L e = Inr d \<and>
     action d \<in> {''AUTO_REPLY'', ''ESCALATE_HUMAN'', ''BLOCK''} \<and>
     dict_keys (intent_scores d) = [''M_AND_A'', ''LEGAL'', ''SECURITY'', ''SALES'', ''SUPPORT''] \<and>
     dict_keys (intent_evidence d) = [''M_AND_A'', ''LEGAL'', ''SECURITY'', ''SALES'', ''SUPPORT''] \<and>
     features d = extract_features L e \<and>
     (let raw = subject e @ [CHR 0x0A] @ body e; text = str_lower L raw in
       ((\<forall>(k, r) \<in> set INTENT_RULES. \<forall>t \<in> set (terms r). \<not> str_in (str_lower L t) text) \<longrightarrow>
          intent_scores d = map (\<lambda>k. (k, 0)) [''M_AND_A'', ''LEGAL'', ''SECURITY'', ''SALES'', ''SUPPORT''] \<and>
          intent_evidence d = map (\<lambda>k. (k, [])) [''M_AND_A'', ''LEGAL'', ''SECURITY'', ''SALES'', ''SUPPORT'']) \<and>
       ((\<forall>t \<in> set ROLE_TERMS. \<not> str_in t text) \<longrightarrow>
          \<not> mentions_roles (features d) \<and> role_hits (features d) = 0) \<and>
       ((\<forall>t \<in> set URGENCY_TERMS. \<not> str_in t text) \<longrightarrow>
          \<not> mentions_urgency (features d) \<and> urgency_hits (features d) = 0) \<and>
       ((\<forall>p \<in> set money_patterns. re_findall L p True raw = []) \<longrightarrow>
          money_mentions (features d) = []) \<and>
       (re_findall L url_pattern True raw = [] \<longrightarrow> urls (features d) = []) \<and>
       (re_findall L phone_pattern False raw = [] \<longrightarrow> phones (features d) = []) \<and>
       (\<not> has_address (sender e) \<longrightarrow>
          sender_domain (features d) = [] \<and> sender_is_free_domain (features d)))"
proof -
  obtain sc ev where s: "score_intents L (subject e) (body e) = Inr (sc, ev)"
    using score_intents_closed by blast
  let ?d = "\<lparr>action = select_action L (suppress L e sc) (extract_features L e),
          risk = float_round L (total_risk L (suppress L e sc) (extract_features L e)) 2,
          intent_scores = suppress L e sc,
          intent_evidence = ev,
          features = extract_features L e\<rparr>"
  let ?raw = "subject e @ [CHR 0x0A] @ body e"
  let ?text = "str_lower L ?raw"
  have d: "decide_action L e = Inr ?d" by (rule decide_action_closed [OF s])
  have a: "action ?d \<in> {''AUTO_REPLY'', ''ESCALATE_HUMAN'', ''BLOCK''}"
    using select_action_range [of L "suppress L e sc" "extract_features L e"] by simp
  from score_intents_keys [OF s] have k1: "dict_keys sc = [''M_AND_A'', ''LEGAL'', ''SECURITY'', ''SALES'', ''SUPPORT'']"
    and k2: "dict_keys ev = [''M_AND_A'', ''LEGAL'', ''SECURITY'', ''SALES'', ''SUPPORT'']" by simp_all
  have k3: "dict_keys (intent_scores ?d) = [''M_AND_A'', ''LEGAL'', ''SECURITY'', ''SALES'', ''SUPPORT'']"
    using suppress_keys [of sc L e] k1 by simp
  have k4: "dict_keys (intent_evidence ?d) = [''M_AND_A'', ''LEGAL'', ''SECURITY'', ''SALES'', ''SUPPORT'']" using k2 by simp
  have f: "features ?d = extract_features L e" by simp
  have c1: "(\<forall>(k, r) \<in> set INTENT_RULES. \<forall>t \<in> set (terms r). \<not> str_in (str_lower L t) ?text) \<longrightarrow>
          intent_scores ?d = map (\<lambda>k. (k, 0)) [''M_AND_A'', ''LEGAL'', ''SECURITY'', ''SALES'', ''SUPPORT''] \<and>
          intent_evidence ?d = map (\<lambda>k. (k, [])) [''M_AND_A'', ''LEGAL'', ''SECURITY'', ''SALES'', ''SUPPORT'']"
  proof
    assume "\<forall>(k, r) \<in> set INTENT_RULES. \<forall>t \<in> set (terms r). \<not> str_in (str_lower L t) ?text"
    then have "\<forall>(k, r) \<in> set INTENT_RULES.
             \<forall>t \<in> set (terms r). \<not> str_in (str_lower L t) (score_text L (subject e) (body e))"
      by (simp add: score_text_def)
    from no_hits_score_intents [OF this] s
    have "sc = map (\<lambda>k. (k, 0)) [''M_AND_A'', ''LEGAL'', ''SECURITY'', ''SALES'', ''SUPPORT'']"
      and "ev = map (\<lambda>k. (k, [])) [''M_AND_A'', ''LEGAL'', ''SECURITY'', ''SALES'', ''SUPPORT'']" by simp_all
    then show "intent_scores ?d = map (\<lambda>k. (k, 0)) [''M_AND_A'', ''LEGAL'', ''SECURITY'', ''SALES'', ''SUPPORT''] \<and>
          intent_evidence ?d = map (\<lambda>k. (k, [])) [''M_AND_A'', ''LEGAL'', ''SECURITY'', ''SALES'', ''SUPPORT'']"
      using suppress_zero [of L e] by simp
  qed
  have c2: "(\<forall>t \<in> set ROLE_TERMS. \<not> str_in t ?text) \<longrightarrow>
          \<not> mentions_roles (features ?d) \<and> role_hits (features ?d) = 0"
    using no_terms_contains [of ROLE_TERMS L ?raw] by (simp add: extract_features_def Let_def)
  have c3: "(\<forall>t \<in> set URGENCY_TERMS. \<not> str_in t ?text) \<longrightarrow>
          \<not> mentions_urgency (features ?d) \<and> urgency_hits (features ?d) = 0"
    using no_terms_contains [of URGENCY_TERMS L ?raw] by (simp add: extract_features_def Let_def)
  have c4: "(\<forall>p \<in> set money_patterns. re_findall L p True ?raw = []) \<longrightarrow>
          money_mentions (features ?d) = []"
    using no_money [of L ?raw] by (simp add: extract_features_def Let_def)
  have c5: "re_findall L url_pattern True ?raw = [] \<longrightarrow> urls (features ?d) = []"
    by (simp add: extract_features_def Let_def find_urls_def)
  have c6: "re_findall L phone_pattern False ?raw = [] \<longrightarrow> phones (features ?d) = []"
    by (simp add: extract_features_def Let_def find_phones_def)
  have c7: "\<not> has_address (sender e) \<longrightarrow>
          sender_domain (features ?d) = [] \<and> sender_is_free_domain (features ?d)"
  proof
    assume "\<not> has_address (sender e)"
    then have "extract_email_domain L (sender e) = None"
      by (simp add: extract_email_domain_None_iff)
    then show "sender_domain (features ?d) = [] \<and> sender_is_free_domain (features ?d)"
      by (simp add: extract_features_def Let_def)
  qed
  show ?thesis
    unfolding Let_def
    by (rule exI [of _ ?d]) (intro conjI; fact d a k3 k4 f c1 c2 c3 c4 c5 c6 c7)
qed

theorem decide_action_total_witness:
  "\<not> has_address (sender \<lparr>sender = [], subject = [], body = []\<rparr>) \<and>
   decide_action plain_lib \<lparr>sender = [], subject = [], body = []\<rparr> =
     Inr \<lparr>action = ''AUTO_REPLY'', risk = 2,
        intent_scores = [(''M_AND_A'', 0), (''LEGAL'', 0), (''SECURITY'', 0), (''SALES'', 0), (''SUPPORT'', 0)],
        intent_evidence = [(''M_AND_A'', []), (''LEGAL'', []), (''SECURITY'', []), (''SALES'', []), (''SUPPORT'', [])],
        features = \<lparr>sender_domain = [], sender_is_free_domain = True,
             mentions_roles = False, role_hits = 0,
             mentions_urgency = False, urgency_hits = 0,
             money_mentions = [], urls = [], phones = [], text_length = 1\<rparr>\<rparr> \<and>
   (\<exists>d. decide_action plain_lib \<lparr>sender = [], subject = [], body = []\<rparr> = Inr d \<and>
      action d \<in> {''AUTO_REPLY'', ''ESCALATE_HUMAN'', ''BLOCK''} \<and>
      intent_scores d = [(''M_AND_A'', 0), (''LEGAL'', 0), (''SECURITY'', 0), (''SALES'', 0), (''SUPPORT'', 0)] \<and>
      intent_evidence d = [(''M_AND_A'', []), (''LEGAL'', []), (''SECURITY'', []), (''SALES'', []), (''SUPPORT'', [])] \<and>
      \<not> mentions_roles (features d) \<and> role_hits (features d) = 0 \<and>
      \<not> mentions_urgency (features d) \<and> urgency_hits (features d) = 0 \<and>
      money_mentions (features d) = [] \<and> urls (features d) = [] \<and> phones (features d) = [] \<and>
      sender_domain (features d) = [] \<and> sender_is_free_domain (features d))"
proof -
  let ?e = "\<lparr>sender = [], subject = [], body = []\<rparr>"
  let ?d = "\<lparr>action = ''AUTO_REPLY'', risk = 2,
        intent_scores = [(''M_AND_A'', 0), (''LEGAL'', 0), (''SECURITY'', 0), (''SALES'', 0), (''SUPPORT'', 0)],
        intent_evidence = [(''M_AND_A'', []), (''LEGAL'', []), (''SECURITY'', []), (''SALES'', []), (''SUPPORT'', [])],
        features = \<lparr>sender_domain = [], sender_is_free_domain = True,
             mentions_roles = False, role_hits = 0,
             mentions_urgency = False, urgency_hits = 0,
             money_mentions = [], urls = [], phones = [], text_length = 1\<rparr>\<rparr> :: rat decision"
  have h: "\<not> has_address (sender ?e)" using has_address_at [of "[]"] by auto
  have hr: "\<forall>t \<in> set ROLE_TERMS. \<not> str_in t (str_lower plain_lib (subject ?e @ [CHR 0x0A] @ body ?e))"
    by code_simp
  have hu: "\<forall>t \<in> set URGENCY_TERMS. \<not> str_in t (str_lower plain_lib (subject ?e @ [CHR 0x0A] @ body ?e))"
    by code_simp
  have hs: "\<forall>(k, r) \<in> set INTENT_RULES. \<forall>t \<in> set (terms r).
      \<not> str_in (str_lower plain_lib t) (str_lower plain_lib (subject ?e @ [CHR 0x0A] @ body ?e))"
    by code_simp
  have hm: "\<forall>p \<in> set money_patterns.
      re_findall plain_lib p True (subject ?e @ [CHR 0x0A] @ body ?e) = []"
    by (simp add: plain_lib_def)
  have hl: "re_findall plain_lib url_pattern True (subject ?e @ [CHR 0x0A] @ body ?e) = []"
    "re_findall plain_lib phone_pattern False (subject ?e @ [CHR 0x0A] @ body ?e) = []"
    by (simp_all add: plain_lib_def)
  from decide_action_total [of plain_lib ?e] obtain d where
    b: "decide_action plain_lib ?e = Inr d" and
    a: "action d \<in> {''AUTO_REPLY'', ''ESCALATE_HUMAN'', ''BLOCK''}" and
    c: "(let raw = subject ?e @ [CHR 0x0A] @ body ?e; text = str_lower plain_lib raw in
       ((\<forall>(k, r) \<in> set INTENT_RULES. \<forall>t \<in> set (terms r). \<not> str_in (str_lower plain_lib t) text) \<longrightarrow>
          intent_scores d = map (\<lambda>k. (k, 0)) [''M_AND_A'', ''LEGAL'', ''SECURITY'', ''SALES'', ''SUPPORT''] \<and>
          intent_evidence d = map (\<lambda>k. (k, [])) [''M_AND_A'', ''LEGAL'', ''SECURITY'', ''SALES'', ''SUPPORT'']) \<and>
       ((\<forall>t \<in> set ROLE_TERMS. \<not> str_in t text) \<longrightarrow>
          \<not> mentions_roles (features d) \<and> role_hits (features d) = 0) \<and>
       ((\<forall>t \<in> set URGENCY_TERMS. \<not> str_in t text) \<longrightarrow>
          \<not> mentions_urgency (features d) \<and> urgency_hits (features d) = 0) \<and>
       ((\<forall>p \<in> set money_patterns. re_findall plain_lib p True raw = []) \<longrightarrow>
          money_mentions (features d) = []) \<and>
       (re_findall plain_lib url_pattern True raw = [] \<longrightarrow> urls (features d) = []) \<and>
       (re_findall plain_lib phone_pattern False raw = [] \<longrightarrow> phones (features d) = []) \<and>
       (\<not> has_address (sender ?e) \<longrightarrow>
          sender_domain (features d) = [] \<and> sender_is_free_domain (features d)))"
    by (elim exE conjE) (rule that)
  from c hs hr hu hm hl h have
    r: "intent_scores d = map (\<lambda>k. (k, 0)) [''M_AND_A'', ''LEGAL'', ''SECURITY'', ''SALES'', ''SUPPORT'']"
       "intent_evidence d = map (\<lambda>k. (k, [])) [''M_AND_A'', ''LEGAL'', ''SECURITY'', ''SALES'', ''SUPPORT'']"
       "\<not> mentions_roles (features d)" "role_hits (features d) = 0"
       "\<not> mentions_urgency (features d)" "urgency_hits (features d) = 0"
       "money_mentions (features d) = []" "urls (features d) = []" "phones (features d) = []"
       "sender_domain (features d) = []" "sender_is_free_domain (features d)"
    unfolding Let_def by blast+
  have ev: "decide_action plain_lib ?e = Inr ?d" by code_simp
  from r(1) have s0: "intent_scores d = [(''M_AND_A'', 0), (''LEGAL'', 0), (''SECURITY'', 0), (''SALES'', 0), (''SUPPORT'', 0)]" by simp
  from r(2) have e0: "intent_evidence d = [(''M_AND_A'', []), (''LEGAL'', []), (''SECURITY'', []), (''SALES'', []), (''SUPPORT'', [])]" by simp
  from b a s0 e0 r(3-11) have "\<exists>d. decide_action plain_lib ?e = Inr d \<and>
      action d \<in> {''AUTO_REPLY'', ''ESCALATE_HUMAN'', ''BLOCK''} \<and>
      intent_scores d = [(''M_AND_A'', 0), (''LEGAL'', 0), (''SECURITY'', 0), (''SALES'', 0), (''SUPPORT'', 0)] \<and>
      intent_evidence d = [(''M_AND_A'', []), (''LEGAL'', []), (''SECURITY'', []), (''SALES'', []), (''SUPPORT'', [])] \<and>
      \<not> mentions_roles (features d) \<and> role_hits (features d) = 0 \<and>
      \<not> mentions_urgency (features d) \<and> urgency_hits (features d) = 0 \<and>
      money_mentions (features d) = [] \<and> urls (features d) = [] \<and> phones (features d) = [] \<and>
      sender_domain (features d) = [] \<and> sender_is_free_domain (features d)"
    by (intro exI [of _ d] conjI)
  with h ev show ?thesis by (intro conjI)
qed

text \<open>
  Suppression does change the action and the risk. For the sender \<^verbatim>\<open>x@gmail.com\<close>, the subject
  \<^verbatim>\<open>ceo\<close> and the body \<^verbatim>\<open>login issue\<close> the scorer gives SECURITY 5 and SUPPORT 1, and the rule
  fires. On the scorer's scores the selection and the risk formula give \<^verbatim>\<open>ESCALATE_HUMAN\<close>
  and 12.5; the decision returned, computed on the scores after suppression, is
  \<^verbatim>\<open>AUTO_REPLY\<close> with risk 6.
\<close>

theorem suppression_changes_action_and_risk:
  "score_intents plain_lib ''ceo'' ''login issue'' =
     Inr ([(''M_AND_A'', 0), (''LEGAL'', 0), (''SECURITY'', 5), (''SALES'', 0), (''SUPPORT'', 1)],
          [(''M_AND_A'', []), (''LEGAL'', []), (''SECURITY'', [''login'']), (''SALES'', []),
           (''SUPPORT'', [''issue''])]) \<and>
   suppressed plain_lib \<lparr>sender = ''x@gmail.com'', subject = ''ceo'', body = ''login issue''\<rparr>
     [(''M_AND_A'', 0), (''LEGAL'', 0), (''SECURITY'', 5), (''SALES'', 0), (''SUPPORT'', 1)] \<and>
   select_action plain_lib
     [(''M_AND_A'', 0), (''LEGAL'', 0), (''SECURITY'', 5), (''SALES'', 0), (''SUPPORT'', 1)]
     (extract_features plain_lib
        \<lparr>sender = ''x@gmail.com'', subject = ''ceo'', body = ''login issue''\<rparr>)
     = ''ESCALATE_HUMAN'' \<and>
   float_round plain_lib (total_risk plain_lib
     [(''M_AND_A'', 0), (''LEGAL'', 0), (''SECURITY'', 5), (''SALES'', 0), (''SUPPORT'', 1)]
     (extract_features plain_lib
        \<lparr>sender = ''x@gmail.com'', subject = ''ceo'', body = ''login issue''\<rparr>)) 2
     = 25 / 2 \<and>
   decide_action plain_lib
     \<lparr>sender = ''x@gmail.com'', subject = ''ceo'', body = ''login issue''\<rparr> =
     Inr \<lparr>action = ''AUTO_REPLY'', risk = 6,
          intent_scores =
            [(''M_AND_A'', 0), (''LEGAL'', 0), (''SECURITY'', 0), (''SALES'', 0), (''SUPPORT'', 1)],
          intent_evidence =
            [(''M_AND_A'', []), (''LEGAL'', []), (''SECURITY'', [''login'']), (''SALES'', []),
             (''SUPPORT'', [''issue''])],
          features =
            \<lparr>sender_domain = ''gmail.com'', sender_is_free_domain = True,
               mentions_roles = True, role_hits = 1,
               mentions_urgency = False, urgency_hits = 0,
               money_mentions = [], urls = [], phones = [], text_length = 15\<rparr>\<rparr>"
  by (intro conjI; code_simp)

end
